theory Spec2Isabelle
  imports Complex_Main "HOL-Library.Multiset"
begin

section \<open>Errors and numpy helpers\<close>

text \<open>
  Every \<^verbatim>\<open>assert\<close>, every out-of-range read and every explicit \<^verbatim>\<open>raise\<close> of the
  Python source is a branch of the model that returns the exception as a value. Floating
  point numbers are modelled by the reals (no rounding, no NaN), with \<open>-inf\<close> added
  where the source compares against it.
\<close>

datatype error = AssertionError | IndexError | KeyError | TypeError | ValueError | ZeroDivisionError

text \<open>\<^verbatim>\<open>np.where(cond)[0]\<close>: the indices at which the condition holds, ascending.\<close>

definition np_where :: "('a \<Rightarrow> bool) \<Rightarrow> 'a list \<Rightarrow> nat list" where
  "np_where P xs = filter (\<lambda>i. P (xs ! i)) [0..<length xs]"

text \<open>\<^verbatim>\<open>np.unique(xs)\<close>: the sorted distinct elements.\<close>

definition np_unique :: "int list \<Rightarrow> int list" where
  "np_unique xs = sort (remdups xs)"

text \<open>
  \<^verbatim>\<open>np.delete(xs, inds)\<close> along the first axis: a new array without the entries at
  the given indices; an index out of bounds raises \<^verbatim>\<open>IndexError\<close>.
\<close>

definition np_delete :: "'a list \<Rightarrow> nat list \<Rightarrow> error + 'a list" where
  "np_delete xs inds =
     (if \<forall>i \<in> set inds. i < length xs then Inr (nths xs (- set inds)) else Inl IndexError)"

section \<open>Runs (\<^verbatim>\<open>output_processing.py\<close>)\<close>

text \<open>An entry of \<^verbatim>\<open>thread_min_max\<close>: a float that may be \<^verbatim>\<open>-np.inf\<close>.\<close>

datatype bound = MinusInf | Finite real

fun bound_le :: "bound \<Rightarrow> bound \<Rightarrow> bool" where
  "bound_le MinusInf b = True"
| "bound_le (Finite x) MinusInf = False"
| "bound_le (Finite x) (Finite y) = (x \<le> y)"

fun bound_less :: "bound \<Rightarrow> bound \<Rightarrow> bool" where
  "bound_less b MinusInf = False"
| "bound_less MinusInf (Finite y) = True"
| "bound_less (Finite x) (Finite y) = (x < y)"

text \<open>
  The value of \<^verbatim>\<open>dynamic_goal\<close>: \<^verbatim>\<open>None\<close> or a number.
\<close>

datatype goal = GoalNone | Goal real

text \<open>
  The \<^verbatim>\<open>output\<close> dictionary of a run and the pickled \<^verbatim>\<open>dyn_info\<close> dictionary: the
  keys the source reads or writes, \<open>None\<close> when the key is absent.
\<close>

record info =
  nlike :: "int option"
  info_resume_ndead :: "nat option"
  info_resume_nlike :: "int option"
  info_file_root :: "string option"
  info_base_dir :: "string option"
  info_dynamic_goal :: "goal option"
  init_nlike :: "int option"
  dyn_nlike :: "int option"

definition empty_info :: info where
  "empty_info = \<lparr>nlike = None, info_resume_ndead = None, info_resume_nlike = None,
     info_file_root = None, info_base_dir = None, info_dynamic_goal = None,
     init_nlike = None, dyn_nlike = None\<rparr>"

text \<open>
  A nested sampling run: the dictionary of parallel arrays the source indexes by key.
  \<^verbatim>\<open>theta\<close> is a two-dimensional array (a list of rows).
\<close>

record run =
  theta :: "real list list"
  logl :: "real list"
  nlive_array :: "int list"
  thread_labels :: "int list"
  thread_min_max :: "(bound \<times> bound) list"
  run_output :: info

text \<open>
  Runs are mutable dictionaries passed by reference: the store maps a reference (an
  index) to the current contents of the dictionary it names.
\<close>

type_synonym run_store = "run list"

subsection \<open>The thread operations of the nested sampling library\<close>

text \<open>
  Modelled from the spec: \<^verbatim>\<open>nestcheck.ns_run_utils.get_run_threads\<close> and
  \<^verbatim>\<open>nestcheck.ns_run_utils.combine_threads\<close> belong to an external library whose
  source is not part of the repository. The spec (sections 3 and 4.4) gives their
  contract: a sample is a \<open>theta\<close> vector, a \<open>logl\<close> and a thread label; a run holds
  one bound pair per thread; merging concatenates the threads of the runs, orders the
  samples by \<open>logl\<close>, re-derives \<^verbatim>\<open>nlive_array\<close> by counting the threads whose bound
  interval covers each sample, and (birth-point consistency) verifies that every
  thread's birth bound is \<open>-infinity\<close> or the \<open>logl\<close> of a sample of the merged set.
\<close>

record sample =
  s_logl :: real
  s_label :: int
  s_theta :: "real list"

record thread =
  th_samples :: "sample list"
  th_min_max :: "bound \<times> bound"

text \<open>
  Modelled from the spec: the samples of a run, one per index of the parallel arrays
  (arrays of different lengths do not form a set of samples).
\<close>

definition array_given_run :: "run \<Rightarrow> error + sample list" where
  "array_given_run r =
     (if length (theta r) = length (logl r) \<and> length (thread_labels r) = length (logl r)
         \<and> length (nlive_array r) = length (logl r)
      then Inr (map (\<lambda>i. \<lparr>s_logl = logl r ! i, s_label = thread_labels r ! i,
                            s_theta = theta r ! i\<rparr>) [0..<length (logl r)])
      else Inl ValueError)"

text \<open>
  Modelled from the spec: the threads of a run, in the order of their labels, each with
  its bound pair; a run has exactly one bound pair per thread.
\<close>

definition get_run_threads :: "run \<Rightarrow> error + thread list" where
  "get_run_threads r =
     (case array_given_run r of
        Inl e \<Rightarrow> Inl e
      | Inr samples \<Rightarrow>
          let unique_threads = np_unique (thread_labels r) in
          if length (thread_min_max r) \<noteq> length unique_threads then Inl AssertionError
          else Inr (map (\<lambda>(i, th_lab).
                 \<lparr>th_samples = filter (\<lambda>s. s_label s = th_lab) samples,
                  th_min_max = thread_min_max r ! i\<rparr>) (enumerate 0 unique_threads)))"

text \<open>
  Modelled from the spec: the number of threads whose bound interval covers a
  \<open>logl\<close> value.
\<close>

definition nlive_at :: "(bound \<times> bound) list \<Rightarrow> real \<Rightarrow> int" where
  "nlive_at min_max l =
     int (length (filter (\<lambda>(lo, hi). bound_less lo (Finite l) \<and> bound_le (Finite l) hi) min_max))"

text \<open>
  Modelled from the spec: the merge of a list of threads. Thread \<open>j\<close> of the list gets
  label \<open>j\<close>; the samples are ordered by \<open>logl\<close>; with \<^verbatim>\<open>assert_birth_point\<close> every
  birth bound other than \<open>-infinity\<close> must be the \<open>logl\<close> of a merged sample.
\<close>

definition combine_threads :: "thread list \<Rightarrow> bool \<Rightarrow> error + run" where
  "combine_threads threads assert_birth_point =
     (let min_max = map th_min_max threads;
          samples_temp = sort_key s_logl (concat (map (\<lambda>(j, th).
              map (\<lambda>s. s\<lparr>s_label := int j\<rparr>) (th_samples th)) (enumerate 0 threads)))
      in if assert_birth_point \<and>
            (\<exists>b \<in> set (map fst min_max). b \<noteq> MinusInf \<and> b \<notin> Finite ` set (map s_logl samples_temp))
         then Inl AssertionError
         else Inr \<lparr>theta = map s_theta samples_temp,
                   logl = map s_logl samples_temp,
                   nlive_array = map (\<lambda>s. nlive_at min_max (s_logl s)) samples_temp,
                   thread_labels = map s_label samples_temp,
                   thread_min_max = min_max,
                   run_output = empty_info\<rparr>)"

text \<open>
  Modelled from the spec: \<^verbatim>\<open>nestcheck.ns_run_utils.combine_ns_runs\<close>, the merge of
  runs with disjoint sample sets (section 4.4, independent case): the thread
  collections of the runs are concatenated in the order given.
\<close>

fun run_threads_list :: "run list \<Rightarrow> error + thread list" where
  "run_threads_list [] = Inr []"
| "run_threads_list (r # rs) =
     (case get_run_threads r of
        Inl e \<Rightarrow> Inl e
      | Inr ths \<Rightarrow> (case run_threads_list rs of Inl e \<Rightarrow> Inl e | Inr ths' \<Rightarrow> Inr (ths @ ths')))"

definition combine_ns_runs :: "run list \<Rightarrow> error + run" where
  "combine_ns_runs runs =
     (case run_threads_list runs of Inl e \<Rightarrow> Inl e | Inr ths \<Rightarrow> combine_threads ths False)"

subsection \<open>\<^verbatim>\<open>combine_resumed_dyn_run\<close>\<close>

text \<open>
  \<^verbatim>\<open>combine_resumed_dyn_run(init, dyn, resume_ndead)\<close> receives two references into
  the store. Each stage below returns the store as it stands when the stage ends or
  raises, so that what the caller's dictionaries hold afterwards is part of the result.
\<close>

text \<open>Lines 93--95: the slices \<^verbatim>\<open>[resume_ndead:]\<close> are stored back under their keys.\<close>

definition truncate_init :: "run_store \<Rightarrow> nat \<Rightarrow> nat \<Rightarrow> run_store" where
  "truncate_init st init resume_count =
     st[init := (st ! init)\<lparr>theta := drop resume_count (theta (st ! init)),
                            nlive_array := drop resume_count (nlive_array (st ! init)),
                            logl := drop resume_count (logl (st ! init)),
                            thread_labels := drop resume_count (thread_labels (st ! init))\<rparr>]"

text \<open>
  Lines 98--108: the loop over \<^verbatim>\<open>enumerate(np.unique(init['thread_labels']))\<close>. It
  collects the index of the first sample of every thread, records the threads with a
  single sample, checks that the first sample occurs exactly once in \<^verbatim>\<open>dyn['logl']\<close>
  and writes its \<open>logl\<close> into the thread's birth bound, in place.
\<close>

fun live_points_loop ::
  "nat \<Rightarrow> nat \<Rightarrow> (nat \<times> int) list \<Rightarrow> run_store \<Rightarrow> nat list \<Rightarrow> nat list
     \<Rightarrow> (error + nat list \<times> nat list) \<times> run_store" where
  "live_points_loop init dyn [] st live_inds empty_thread_inds =
     (Inr (live_inds, empty_thread_inds), st)"
| "live_points_loop init dyn ((i, th_lab) # rest) st live_inds empty_thread_inds =
     (case np_where (\<lambda>l. l = th_lab) (thread_labels (st ! init)) of
        [] \<Rightarrow> (Inl IndexError, st)
      | t0 # ts \<Rightarrow>
          if length (logl (st ! init)) \<le> t0 then (Inl IndexError, st)
          else let live_logl = logl (st ! init) ! t0 in
            if length (np_where (\<lambda>x. x = live_logl) (logl (st ! dyn))) \<noteq> 1
            then (Inl AssertionError, st)
            else if length (thread_min_max (st ! init)) \<le> i then (Inl IndexError, st)
            else live_points_loop init dyn rest
                   (st[init := (st ! init)\<lparr>thread_min_max :=
                      (thread_min_max (st ! init))
                        [i := (Finite live_logl, snd (thread_min_max (st ! init) ! i))]\<rparr>])
                   (live_inds @ [t0])
                   (if ts = [] then empty_thread_inds @ [i] else empty_thread_inds))"

text \<open>Lines 110--112: the live points are deleted from the four per-sample arrays.\<close>

definition delete_live_points :: "run_store \<Rightarrow> nat \<Rightarrow> nat list \<Rightarrow> (error + unit) \<times> run_store" where
  "delete_live_points st init live_inds =
     (case np_delete (theta (st ! init)) live_inds of
        Inl e \<Rightarrow> (Inl e, st)
      | Inr theta' \<Rightarrow>
     let st1 = st[init := (st ! init)\<lparr>theta := theta'\<rparr>] in
     case np_delete (nlive_array (st1 ! init)) live_inds of
        Inl e \<Rightarrow> (Inl e, st1)
      | Inr nlive_array' \<Rightarrow>
     let st2 = st1[init := (st1 ! init)\<lparr>nlive_array := nlive_array'\<rparr>] in
     case np_delete (logl (st2 ! init)) live_inds of
        Inl e \<Rightarrow> (Inl e, st2)
      | Inr logl' \<Rightarrow>
     let st3 = st2[init := (st2 ! init)\<lparr>logl := logl'\<rparr>] in
     case np_delete (thread_labels (st3 ! init)) live_inds of
        Inl e \<Rightarrow> (Inl e, st3)
      | Inr thread_labels' \<Rightarrow>
          (Inr (), st3[init := (st3 ! init)\<lparr>thread_labels := thread_labels'\<rparr>]))"

text \<open>
  Lines 119--126: the relabelling loop. \<^verbatim>\<open>thread_labels_new\<close> starts filled with
  NaN (\<open>None\<close>); every thread's entries are set to its position \<open>i\<close>, and the thread's
  bound pair is checked against its first and last remaining sample. The final check is
  that no NaN is left.
\<close>

fun relabel_loop :: "run \<Rightarrow> (nat \<times> int) list \<Rightarrow> nat option list \<Rightarrow> error + nat option list" where
  "relabel_loop r [] thread_labels_new = Inr thread_labels_new"
| "relabel_loop r ((i, th_lab) # rest) thread_labels_new =
     (let inds = np_where (\<lambda>l. l = th_lab) (thread_labels r);
          thread_labels_new' = fold (\<lambda>j new. new[j := Some i]) inds thread_labels_new
      in if length (thread_min_max r) \<le> i then Inl IndexError
         else case inds of
           [] \<Rightarrow> Inl IndexError
         | t0 # ts \<Rightarrow>
             if length (logl r) \<le> t0 then Inl IndexError
             else if \<not> bound_le (fst (thread_min_max r ! i)) (Finite (logl r ! t0))
             then Inl AssertionError
             else if length (logl r) \<le> last inds then Inl IndexError
             else if snd (thread_min_max r ! i) \<noteq> Finite (logl r ! last inds)
             then Inl AssertionError
             else relabel_loop r rest thread_labels_new')"

text \<open>Lines 114--127: the case that a thread has lost its only sample.\<close>

definition remove_empty_threads :: "run_store \<Rightarrow> nat \<Rightarrow> nat list \<Rightarrow> (error + unit) \<times> run_store" where
  "remove_empty_threads st init empty_thread_inds =
     (if empty_thread_inds = [] then (Inr (), st)
      else case np_delete (thread_min_max (st ! init)) empty_thread_inds of
        Inl e \<Rightarrow> (Inl e, st)
      | Inr mm \<Rightarrow>
     let st1 = st[init := (st ! init)\<lparr>thread_min_max := mm\<rparr>] in
     case relabel_loop (st1 ! init) (enumerate 0 (np_unique (thread_labels (st1 ! init))))
            (replicate (length (thread_labels (st1 ! init))) None) of
        Inl e \<Rightarrow> (Inl e, st1)
      | Inr thread_labels_new \<Rightarrow>
          if None \<in> set thread_labels_new then (Inl AssertionError, st1)
          else (Inr (), st1[init := (st1 ! init)\<lparr>thread_labels :=
                  map (\<lambda>l. int (the l)) thread_labels_new\<rparr>]))"

text \<open>
  Lines 130--135: the labels of \<^verbatim>\<open>init\<close> are shifted by the number of threads of
  \<^verbatim>\<open>dyn\<close>, in place, and the threads of both runs are merged.
\<close>

definition merge_threads :: "run_store \<Rightarrow> nat \<Rightarrow> nat \<Rightarrow> (error + run) \<times> run_store" where
  "merge_threads st init dyn =
     (let st1 = st[init := (st ! init)\<lparr>thread_labels :=
                  map (\<lambda>l. l + int (length (thread_min_max (st ! dyn)))) (thread_labels (st ! init))\<rparr>]
      in case get_run_threads (st1 ! dyn) of
           Inl e \<Rightarrow> (Inl e, st1)
         | Inr dyn_threads \<Rightarrow>
        (case get_run_threads (st1 ! init) of
           Inl e \<Rightarrow> (Inl e, st1)
         | Inr init_threads \<Rightarrow> (combine_threads (dyn_threads @ init_threads) True, st1)))"

definition combine_resumed_dyn_run ::
  "run_store \<Rightarrow> nat \<Rightarrow> nat \<Rightarrow> nat \<Rightarrow> (error + run) \<times> run_store" where
  "combine_resumed_dyn_run st init dyn resume_count =
     (if take resume_count (logl (st ! init)) \<noteq> take resume_count (logl (st ! dyn))
      then (Inl AssertionError, st)
      else let st1 = truncate_init st init resume_count in
      case live_points_loop init dyn
             (enumerate 0 (np_unique (thread_labels (st1 ! init)))) st1 [] [] of
        (Inl e, st2) \<Rightarrow> (Inl e, st2)
      | (Inr (live_inds, empty_thread_inds), st2) \<Rightarrow>
      (case delete_live_points st2 init live_inds of
        (Inl e, st3) \<Rightarrow> (Inl e, st3)
      | (Inr u, st3) \<Rightarrow>
      (case remove_empty_threads st3 init empty_thread_inds of
        (Inl e, st4) \<Rightarrow> (Inl e, st4)
      | (Inr u, st4) \<Rightarrow> merge_threads st4 init dyn)))"

subsection \<open>\<^verbatim>\<open>process_dypolychord_run\<close>\<close>

text \<open>
  The keyword arguments: \<^verbatim>\<open>dynamic_goal\<close> is required, \<^verbatim>\<open>logl_warn_only\<close>
  defaults to \<^verbatim>\<open>False\<close>, any other name raises \<^verbatim>\<open>TypeError\<close>.
\<close>

record pd_kwargs =
  kw_dynamic_goal :: "goal option"
  kw_logl_warn_only :: "bool option"
  kw_unexpected :: "string list"

text \<open>
  The collaborators of \<^verbatim>\<open>process_dypolychord_run\<close> outside the repository, taken as
  parameters: \<^verbatim>\<open>nestcheck.data_processing.process_polychord_run(file_root, base_dir,
  logl_warn_only=...)\<close>, \<^verbatim>\<open>iou.pickle_load(os.path.join(base_dir, name))\<close> and
  \<^verbatim>\<open>nestcheck.data_processing.check_ns_run(run)\<close> (\<open>Some e\<close> when it raises).
\<close>

record pd_env =
  process_polychord_run :: "string \<Rightarrow> string \<Rightarrow> bool \<Rightarrow> error + run"
  pickle_load :: "string \<Rightarrow> string \<Rightarrow> error + info"
  check_ns_run :: "run \<Rightarrow> error option"

text \<open>\<^verbatim>\<open>np.all(run['thread_min_max'][:, 0] == -np.inf)\<close>.\<close>

definition all_birth_minus_inf :: "run \<Rightarrow> bool" where
  "all_birth_minus_inf r = (\<forall>b \<in> set (map fst (thread_min_max r)). b = MinusInf)"

text \<open>Lines 70--79: the metadata is attached to the merged run, which is then validated.\<close>

definition add_info ::
  "pd_env \<Rightarrow> run_store \<Rightarrow> nat \<Rightarrow> nat \<Rightarrow> run \<Rightarrow> info \<Rightarrow> string \<Rightarrow> string \<Rightarrow> goal
     \<Rightarrow> (error + run) \<times> run_store" where
  "add_info env st init dyn merged dyn_info froot bdir dynamic_goal =
     (case nlike (run_output (st ! init)) of
        None \<Rightarrow> (Inl KeyError, st)
      | Some init_n \<Rightarrow>
     (case nlike (run_output (st ! dyn)) of
        None \<Rightarrow> (Inl KeyError, st)
      | Some dyn_n \<Rightarrow>
          let merged' = merged\<lparr>run_output := dyn_info\<lparr>info_file_root := Some froot,
                info_base_dir := Some bdir, info_dynamic_goal := Some dynamic_goal,
                init_nlike := Some init_n, dyn_nlike := Some dyn_n\<rparr>\<rparr>
          in case check_ns_run env merged' of
               Some e \<Rightarrow> (Inl e, st)
             | None \<Rightarrow> (Inr merged', st)))"

text \<open>
  Lines 58--69: without \<^verbatim>\<open>resume_ndead\<close> in \<^verbatim>\<open>dyn_info\<close> the two runs are combined
  as they are; with it the duplicated points are removed by
  \<^verbatim>\<open>combine_resumed_dyn_run\<close>.
\<close>

definition merge_runs ::
  "run_store \<Rightarrow> nat \<Rightarrow> nat \<Rightarrow> info \<Rightarrow> (error + run \<times> info) \<times> run_store" where
  "merge_runs st init dyn dyn_info =
     (case info_resume_ndead dyn_info of
        None \<Rightarrow>
          (case combine_ns_runs [st ! init, st ! dyn] of
             Inl e \<Rightarrow> (Inl e, st)
           | Inr merged \<Rightarrow>
               (case (nlike (run_output (st ! init)), nlike (run_output (st ! dyn))) of
                  (Some a, Some b) \<Rightarrow> (Inr (merged, dyn_info\<lparr>nlike := Some (a + b)\<rparr>), st)
                | _ \<Rightarrow> (Inl KeyError, st)))
      | Some resume_count \<Rightarrow>
          (case combine_resumed_dyn_run st init dyn resume_count of
             (Inl e, st') \<Rightarrow> (Inl e, st')
           | (Inr merged, st') \<Rightarrow>
               (case (nlike (run_output (st' ! init)), nlike (run_output (st' ! dyn)),
                      info_resume_nlike dyn_info) of
                  (Some a, Some b, Some c) \<Rightarrow>
                    (Inr (merged, dyn_info\<lparr>nlike := Some (a + b - c)\<rparr>), st')
                | _ \<Rightarrow> (Inl KeyError, st'))))"

text \<open>
  \<^verbatim>\<open>process_dypolychord_run(file_root, base_dir, **kwargs)\<close>. The two loaded runs
  are new dictionaries: they are appended to the store, \<^verbatim>\<open>init\<close> first.
\<close>

definition process_dypolychord_run ::
  "pd_env \<Rightarrow> run_store \<Rightarrow> string \<Rightarrow> string \<Rightarrow> pd_kwargs \<Rightarrow> (error + run) \<times> run_store" where
  "process_dypolychord_run env st froot bdir kwargs =
     (case kw_dynamic_goal kwargs of
        None \<Rightarrow> (Inl KeyError, st)
      | Some dynamic_goal \<Rightarrow>
     let logl_warn_only = (case kw_logl_warn_only kwargs of None \<Rightarrow> False | Some b \<Rightarrow> b) in
     if kw_unexpected kwargs \<noteq> [] then (Inl TypeError, st)
     else case process_polychord_run env (froot @ ''_init'') bdir logl_warn_only of
        Inl e \<Rightarrow> (Inl e, st)
      | Inr init_run \<Rightarrow>
     let init = length st; st1 = st @ [init_run] in
     if \<not> all_birth_minus_inf (st1 ! init) then (Inl AssertionError, st1)
     else case process_polychord_run env (froot @ ''_dyn'') bdir logl_warn_only of
        Inl e \<Rightarrow> (Inl e, st1)
      | Inr dyn_run \<Rightarrow>
     let dyn = length st1; st2 = st1 @ [dyn_run] in
     case pickle_load env bdir (froot @ ''_dyn_info'') of
        Inl e \<Rightarrow> (Inl e, st2)
      | Inr dyn_info \<Rightarrow>
     if dynamic_goal = Goal 0 \<and> \<not> all_birth_minus_inf (st2 ! dyn) then (Inl AssertionError, st2)
     else case merge_runs st2 init dyn dyn_info of
        (Inl e, st3) \<Rightarrow> (Inl e, st3)
      | (Inr (merged, dyn_info'), st3) \<Rightarrow>
          add_info env st3 init dyn merged dyn_info' froot bdir dynamic_goal)"

section \<open>Dynamic nested sampling (\<^verbatim>\<open>dypypolychord/__init__.py\<close>)\<close>

subsection \<open>Settings, keyword arguments and collaborators\<close>

text \<open>
  The attributes of a \<^verbatim>\<open>PolyChordSettings\<close> object that the source reads or writes.
  \<^verbatim>\<open>nlives\<close> is a dictionary from \<open>logl\<close> thresholds to live point counts.
\<close>

record pc_settings =
  file_root :: string
  base_dir :: string
  nlive :: int
  nlives :: "real \<rightharpoonup> int"
  read_resume :: bool
  write_resume :: bool
  max_ndead :: int

text \<open>
  Settings objects are mutable and passed by reference. \<^verbatim>\<open>copy.deepcopy\<close> allocates
  a new object with the same contents; an attribute assignment updates the object a
  reference names.
\<close>

type_synonym settings_store = "pc_settings list"

definition deepcopy :: "settings_store \<Rightarrow> nat \<Rightarrow> nat \<times> settings_store" where
  "deepcopy st r = (length st, st @ [st ! r])"

definition setattr :: "settings_store \<Rightarrow> nat \<Rightarrow> (pc_settings \<Rightarrow> pc_settings) \<Rightarrow> settings_store" where
  "setattr st r upd = st[r := upd (st ! r)]"

text \<open>The field of the sampler's output that the source reads.\<close>

record pc_output =
  ndead :: int

text \<open>
  The keyword arguments with a default (\<open>None\<close> when not given) and the names of any
  other keyword arguments. \<^verbatim>\<open>ndims\<close>, \<^verbatim>\<open>nderived\<close>, \<^verbatim>\<open>likelihood\<close> and
  \<^verbatim>\<open>prior\<close> are only handed on to the sampler and belong to the sampler parameter.
\<close>

record dyn_kwargs =
  kw_ninit :: "int option"
  kw_init_step :: "int option"
  kw_dyn_nlive_step :: "int option"
  kw_nlive_const :: "int option"
  kw_other :: "string list"

text \<open>
  The collaborators outside the repository, taken as parameters over an abstract world
  \<open>'w\<close> (the file system and the sampler's state): the sampler
  \<^verbatim>\<open>PyPolyChord.run_polychord\<close>, the loader
  \<^verbatim>\<open>nestcheck.data_processing.process_polychord_run(path)\<close>, \<^verbatim>\<open>shutil.copyfile\<close>,
  \<^verbatim>\<open>os.remove\<close>, \<^verbatim>\<open>ar.get_logx\<close>, \<^verbatim>\<open>ar.rel_posterior_mass\<close>,
  \<^verbatim>\<open>save_load_utils.save_info\<close> and the MPI rank. Each call that touches the world
  may fail with an exception of its own.
\<close>

record 'w dyn_env =
  run_polychord :: "pc_settings \<Rightarrow> 'w \<Rightarrow> error + pc_output \<times> 'w"
  load_polychord_run :: "string \<Rightarrow> 'w \<Rightarrow> error + run"
  copyfile :: "string \<Rightarrow> string \<Rightarrow> 'w \<Rightarrow> error + 'w"
  os_remove :: "string \<Rightarrow> 'w \<Rightarrow> error + 'w"
  get_logx :: "int list \<Rightarrow> real list"
  rel_posterior_mass :: "real list \<Rightarrow> real list \<Rightarrow> real list"
  save_info :: "pc_settings \<Rightarrow> pc_output \<Rightarrow> int \<Rightarrow> 'w \<Rightarrow> error + 'w"
  comm_rank :: int

text \<open>\<^verbatim>\<open>str(n)\<close> for an integer.\<close>

fun str_nat :: "nat \<Rightarrow> string" where
  "str_nat n = (if n < 10 then [char_of (48 + n)] else str_nat (n div 10) @ [char_of (48 + n mod 10)])"

declare str_nat.simps [simp del]

definition str_int :: "int \<Rightarrow> string" where
  "str_int i = (if i < 0 then ''-'' @ str_nat (nat (- i)) else str_nat (nat i))"

text \<open>\<^verbatim>\<open>int(x)\<close> for a float: truncation towards zero.\<close>

definition py_int :: "real \<Rightarrow> int" where
  "py_int x = (if 0 \<le> x then \<lfloor>x\<rfloor> else \<lceil>x\<rceil>)"

subsection \<open>The exploration loop (lines 74--98)\<close>

text \<open>
  Lines 96--98: \<^verbatim>\<open>add_points\<close> after an iteration, from the recorded history.
\<close>

definition add_points_after :: "int list \<Rightarrow> bool" where
  "add_points_after step_ndead =
     (\<not> (length step_ndead \<ge> 2 \<and>
          step_ndead ! (length step_ndead - 1) = step_ndead ! (length step_ndead - 2) + 1))"

text \<open>
  One iteration of the \<^verbatim>\<open>while add_points\<close> loop (lines 78--98) on the settings
  copy \<open>pc\<close>. It returns the new value of \<^verbatim>\<open>add_points\<close> with the world and the
  history, and the store as it stands when the iteration ends or raises. The dictionary
  \<^verbatim>\<open>runs_at_resumes\<close> is written and never read; it is left out.
\<close>

definition exploration_iteration ::
  "'w dyn_env \<Rightarrow> int \<Rightarrow> int \<Rightarrow> nat \<Rightarrow> settings_store \<Rightarrow> 'w \<Rightarrow> int list
     \<Rightarrow> (error + bool \<times> 'w \<times> int list) \<times> settings_store" where
  "exploration_iteration env ninit init_step pc st w step_ndead =
     (let st1 = (if length step_ndead = 1 then setattr st pc (\<lambda>c. c\<lparr>read_resume := True\<rparr>) else st);
          st2 = setattr st1 pc (\<lambda>c. c\<lparr>max_ndead := (int (length step_ndead) + 1) * init_step\<rparr>)
      in case run_polychord env (st2 ! pc) w of
           Inl e \<Rightarrow> (Inl e, st2)
         | Inr (out, w1) \<Rightarrow>
      let step_ndead' = step_ndead @ [ndead out - nlive (st2 ! pc)] in
      case load_polychord_run env (base_dir (st2 ! pc) @ ''/'' @ file_root (st2 ! pc)) w1 of
           Inl e \<Rightarrow> (Inl e, st2)
         | Inr r \<Rightarrow>
      if int (length (thread_labels r)) \<noteq> ndead out then (Inl AssertionError, st2)
      else if int (length (np_unique (thread_labels r))) \<noteq> ninit then (Inl AssertionError, st2)
      else case copyfile env
                  (base_dir (st2 ! pc) @ ''/'' @ file_root (st2 ! pc) @ ''.resume'')
                  (base_dir (st2 ! pc) @ ''/'' @ file_root (st2 ! pc) @ ''_'' @
                     str_int (last step_ndead') @ ''.resume'') w1 of
           Inl e \<Rightarrow> (Inl e, st2)
         | Inr w2 \<Rightarrow> (Inr (add_points_after step_ndead', w2, step_ndead'), st2))"

text \<open>
  The loop itself. The sampler may never reach the stopping condition, so the loop is
  a partial function: \<open>None\<close> is the run that never returns.
\<close>

partial_function (option) exploration_loop ::
  "'w dyn_env \<Rightarrow> int \<Rightarrow> int \<Rightarrow> nat \<Rightarrow> settings_store \<Rightarrow> 'w \<Rightarrow> int list
     \<Rightarrow> ((error + 'w \<times> int list) \<times> settings_store) option" where
  "exploration_loop env ninit init_step pc st w step_ndead =
     (case exploration_iteration env ninit init_step pc st w step_ndead of
        (Inl e, st') \<Rightarrow> Some (Inl e, st')
      | (Inr (add_points, w', step_ndead'), st') \<Rightarrow>
          if add_points then exploration_loop env ninit init_step pc st' w' step_ndead'
          else Some (Inr (w', step_ndead'), st'))"

subsection \<open>The live point schedule (lines 104--125)\<close>

text \<open>
  Lines 107--112: the relative posterior mass is scaled into a number of live points per
  sample, with the arithmetic of the reals (for \<open>ninit = 0\<close> numpy's division gives
  infinities and NaN, which the real numbers do not have).
\<close>

definition nlives_array_scaled :: "real list \<Rightarrow> int \<Rightarrow> nat \<Rightarrow> int \<Rightarrow> int \<Rightarrow> real list" where
  "nlives_array_scaled w_rel max_nd n_init nlive_const ninit =
     (if max_nd > 0 then map (\<lambda>x. x * real_of_int (max_nd - int n_init)) w_rel
      else map (\<lambda>x. x * real n_init * real_of_int (nlive_const - ninit) / real_of_int ninit) w_rel)"

text \<open>
  Line 114: \<^verbatim>\<open>peak_start_ind = np.where(nlives_array > ninit)[0][0]\<close>; the read of
  element \<open>0\<close> of an empty index array raises \<^verbatim>\<open>IndexError\<close>.
\<close>

definition peak_start_ind :: "real list \<Rightarrow> int \<Rightarrow> error + nat" where
  "peak_start_ind nl ninit =
     (case np_where (\<lambda>x. x > real_of_int ninit) nl of
        [] \<Rightarrow> Inl IndexError
      | i # is \<Rightarrow> Inr i)"

text \<open>Line 115: \<^verbatim>\<open>nlives_array[:peak_start_ind] = ninit\<close>.\<close>

definition nlives_array_clamped :: "real list \<Rightarrow> nat \<Rightarrow> int \<Rightarrow> real list" where
  "nlives_array_clamped nl peak ninit =
     map (\<lambda>i. if i < peak then real_of_int ninit else nl ! i) [0..<length nl]"

text \<open>
  Lines 118--119: \<^verbatim>\<open>steps = dyn_nlive_step * np.asarray(range(n // dyn_nlive_step))\<close>.
  The floor division raises \<^verbatim>\<open>ZeroDivisionError\<close> for a zero stride; a negative
  stride gives an empty range.
\<close>

definition steps :: "nat \<Rightarrow> int \<Rightarrow> error + int list" where
  "steps n dyn_nlive_step =
     (if dyn_nlive_step = 0 then Inl ZeroDivisionError
      else Inr (map (\<lambda>j. dyn_nlive_step * int j) [0..<nat (int n div dyn_nlive_step)]))"

text \<open>The key of the seed entry, \<^verbatim>\<open>-1. * 10e100\<close>.\<close>

definition seed_logl :: real where
  "seed_logl = - (10 * 10 ^ 100)"

text \<open>
  Lines 120--125: the loop over \<^verbatim>\<open>enumerate(steps[:-1])\<close>. Position \<open>i\<close> reads the
  target at \<^verbatim>\<open>steps[i + 1]\<close> and, when its integer part is at least one, stores it
  under the key \<^verbatim>\<open>logl[step]\<close>.
\<close>

fun nlives_dict_loop ::
  "real list \<Rightarrow> real list \<Rightarrow> int list \<Rightarrow> (nat \<times> int) list \<Rightarrow> (real \<rightharpoonup> int)
     \<Rightarrow> error + (real \<rightharpoonup> int)" where
  "nlives_dict_loop nl init_logl stps [] d = Inr d"
| "nlives_dict_loop nl init_logl stps ((i, step) # rest) d =
     (if length nl \<le> nat (stps ! (i + 1)) then Inl IndexError
      else let nlive_i = py_int (nl ! nat (stps ! (i + 1))) in
        if nlive_i \<ge> 1 then
          (if length init_logl \<le> nat step then Inl IndexError
           else nlives_dict_loop nl init_logl stps rest (d(init_logl ! nat step \<mapsto> nlive_i)))
        else nlives_dict_loop nl init_logl stps rest d)"

text \<open>Lines 117--125: the schedule, seeded with \<^verbatim>\<open>{-1. * 10e100: ninit}\<close>.\<close>

definition nlives_dict :: "real list \<Rightarrow> real list \<Rightarrow> nat \<Rightarrow> int \<Rightarrow> int \<Rightarrow> error + (real \<rightharpoonup> int)" where
  "nlives_dict nl init_logl n_w_rel dyn_nlive_step ninit =
     (case steps n_w_rel dyn_nlive_step of
        Inl e \<Rightarrow> Inl e
      | Inr stps \<Rightarrow>
          nlives_dict_loop nl init_logl stps (enumerate 0 (butlast stps))
            (Map.empty(seed_logl \<mapsto> ninit)))"

subsection \<open>Resume selection (lines 126--130)\<close>

text \<open>
  \<^verbatim>\<open>resume_steps = np.asarray(step_ndead) - 1\<close> and
  \<^verbatim>\<open>resume_ndead = step_ndead[np.where(resume_steps < peak_start_ind)[0][-1]]\<close>.
  Indexing the empty index array with \<^verbatim>\<open>[-1]\<close> raises \<^verbatim>\<open>IndexError\<close>.
\<close>

definition resume_steps :: "int list \<Rightarrow> int list" where
  "resume_steps step_ndead = map (\<lambda>s. s - 1) step_ndead"

definition resume_ndead :: "int list \<Rightarrow> nat \<Rightarrow> error + int" where
  "resume_ndead step_ndead peak =
     (case np_where (\<lambda>r. r < int peak) (resume_steps step_ndead) of
        [] \<Rightarrow> Inl IndexError
      | i # is \<Rightarrow> Inr (step_ndead ! last (i # is)))"

subsection \<open>\<^verbatim>\<open>run_dynamic_polychord\<close>\<close>

text \<open>Lines 148--151: the checkpoint copies are removed, one per recorded step.\<close>

fun remove_resumes :: "'w dyn_env \<Rightarrow> pc_settings \<Rightarrow> int list \<Rightarrow> 'w \<Rightarrow> error + 'w" where
  "remove_resumes env c_in [] w = Inr w"
| "remove_resumes env c_in (snd_i # rest) w =
     (case os_remove env
             (base_dir c_in @ ''/'' @ file_root c_in @ ''_init_'' @ str_int snd_i @ ''.resume'') w of
        Inl e \<Rightarrow> Inl e
      | Inr w' \<Rightarrow> remove_resumes env c_in rest w')"

text \<open>
  Lines 99--153: the schedule is computed from the exploratory run, the settings for the
  dynamic run are written to a second deep copy of the caller's settings, the chosen
  checkpoint is copied and the sampler is run once more.
\<close>

definition dynamic_phase ::
  "'w dyn_env \<Rightarrow> int \<Rightarrow> int \<Rightarrow> int \<Rightarrow> nat \<Rightarrow> nat \<Rightarrow> settings_store \<Rightarrow> 'w \<Rightarrow> int list
     \<Rightarrow> (error + 'w) \<times> settings_store" where
  "dynamic_phase env ninit dyn_nlive_step nlive_const pc_settings_in pc_init st w step_ndead =
     (case load_polychord_run env (base_dir (st ! pc_init) @ ''/'' @ file_root (st ! pc_init)) w of
        Inl e \<Rightarrow> (Inl e, st)
      | Inr init_run \<Rightarrow>
     case deepcopy st pc_settings_in of (pc, st1) \<Rightarrow>
     let logx_init = get_logx env (nlive_array init_run);
         w_rel = rel_posterior_mass env logx_init (logl init_run);
         nl = nlives_array_scaled w_rel (max_ndead (st1 ! pc_settings_in))
                (length (logl init_run)) nlive_const ninit
     in case peak_start_ind nl ninit of
        Inl e \<Rightarrow> (Inl e, st1)
      | Inr peak \<Rightarrow>
     case nlives_dict (nlives_array_clamped nl peak ninit) (logl init_run) (length w_rel)
            dyn_nlive_step ninit of
        Inl e \<Rightarrow> (Inl e, st1)
      | Inr d \<Rightarrow>
     case resume_ndead step_ndead peak of
        Inl e \<Rightarrow> (Inl e, st1)
      | Inr resume_nd \<Rightarrow>
     let st2 = setattr st1 pc (\<lambda>c. c\<lparr>nlive := dyn_nlive_step\<rparr>);
         st3 = setattr st2 pc (\<lambda>c. c\<lparr>nlives := d\<rparr>);
         st4 = setattr st3 pc (\<lambda>c. c\<lparr>read_resume := True\<rparr>)
     in case copyfile env
               (base_dir (st4 ! pc) @ ''/'' @ file_root (st4 ! pc) @ ''_init_'' @
                  str_int resume_nd @ ''.resume'')
               (base_dir (st4 ! pc) @ ''/'' @ file_root (st4 ! pc) @ ''_dyn.resume'') w of
        Inl e \<Rightarrow> (Inl e, st4)
      | Inr w1 \<Rightarrow>
     let st5 = setattr st4 pc (\<lambda>c. c\<lparr>file_root := file_root (st4 ! pc_settings_in) @ ''_dyn''\<rparr>)
     in case run_polychord env (st5 ! pc) w1 of
        Inl e \<Rightarrow> (Inl e, st5)
      | Inr (dyn_output, w2) \<Rightarrow>
     if comm_rank env = 0 then
       (case remove_resumes env (st5 ! pc_settings_in) step_ndead w2 of
          Inl e \<Rightarrow> (Inl e, st5)
        | Inr w3 \<Rightarrow>
       (case save_info env (st5 ! pc) dyn_output resume_nd w3 of
          Inl e \<Rightarrow> (Inl e, st5)
        | Inr w4 \<Rightarrow> (Inr w4, st5)))
     else (Inr w2, st5))"

text \<open>
  Lines 69--73: the settings of the exploratory run, written to a deep copy of the
  caller's settings.
\<close>

definition init_settings :: "settings_store \<Rightarrow> nat \<Rightarrow> int \<Rightarrow> nat \<times> settings_store" where
  "init_settings st pc_settings_in ninit =
     (case deepcopy st pc_settings_in of (pc, st1) \<Rightarrow>
      let st2 = setattr st1 pc (\<lambda>c. c\<lparr>file_root := file_root (st1 ! pc_settings_in) @ ''_init''\<rparr>);
          st3 = setattr st2 pc (\<lambda>c. c\<lparr>nlive := ninit\<rparr>);
          st4 = setattr st3 pc (\<lambda>c. c\<lparr>write_resume := True\<rparr>);
          st5 = setattr st4 pc (\<lambda>c. c\<lparr>read_resume := False\<rparr>)
      in (pc, st5))"

text \<open>
  \<^verbatim>\<open>run_dynamic_polychord(pc_settings_in, **kwargs)\<close>: \<open>pc_settings_in\<close> is the
  caller's reference into the store. The result is \<open>None\<close> when the exploration loop
  never returns, and otherwise the final world or the exception raised, with the store.
\<close>

definition run_dynamic_polychord ::
  "'w dyn_env \<Rightarrow> settings_store \<Rightarrow> 'w \<Rightarrow> nat \<Rightarrow> dyn_kwargs \<Rightarrow> ((error + 'w) \<times> settings_store) option" where
  "run_dynamic_polychord env st w pc_settings_in kwargs =
     (let ninit = (case kw_ninit kwargs of None \<Rightarrow> 10 | Some n \<Rightarrow> n);
          init_step = (case kw_init_step kwargs of None \<Rightarrow> ninit | Some n \<Rightarrow> n);
          dyn_nlive_step = (case kw_dyn_nlive_step kwargs of None \<Rightarrow> 1 | Some n \<Rightarrow> n);
          nlive_const = (case kw_nlive_const kwargs of
                           None \<Rightarrow> nlive (st ! pc_settings_in) | Some n \<Rightarrow> n)
      in if kw_other kwargs \<noteq> [] then Some (Inl TypeError, st)
         else if nlives (st ! pc_settings_in) \<noteq> Map.empty then Some (Inl AssertionError, st)
         else if read_resume (st ! pc_settings_in) then Some (Inl AssertionError, st)
         else case init_settings st pc_settings_in ninit of (pc, st1) \<Rightarrow>
           (case exploration_loop env ninit init_step pc st1 w [] of
              None \<Rightarrow> None
            | Some (Inl e, st2) \<Rightarrow> Some (Inl e, st2)
            | Some (Inr (w', step_ndead), st2) \<Rightarrow>
                Some (dynamic_phase env ninit dyn_nlive_step nlive_const pc_settings_in pc
                        st2 w' step_ndead)))"

section \<open>A scripted sampler\<close>

text \<open>
  A synthetic collaborator for the exploration loop: the world is the number of sampler
  calls made so far; call number \<open>w\<close> reports the dead count \<open>script ! w\<close> plus the
  live points (so that the recorded history is the script), and the loader returns a run
  with that many samples spread over \<open>ninit\<close> threads, with \<open>logl\<close> values
  \<open>0, 1, 2, ...\<close>. The relative posterior masses are given. The sampler fails once
  the script is used up.
\<close>

definition scripted_samples :: "nat \<Rightarrow> int \<Rightarrow> run" where
  "scripted_samples n ninit =
     \<lparr>theta = map (\<lambda>i. [real i]) [0..<n], logl = map real [0..<n],
      nlive_array = replicate n ninit,
      thread_labels = map (\<lambda>i. int i mod ninit) [0..<n],
      thread_min_max = [], run_output = empty_info\<rparr>"

definition scripted_env :: "int list \<Rightarrow> int \<Rightarrow> real list \<Rightarrow> nat dyn_env" where
  "scripted_env script ninit weights =
     \<lparr>run_polychord = (\<lambda>c w. if w < length script then Inr (\<lparr>ndead = script ! w + nlive c\<rparr>, Suc w)
                               else Inl ValueError),
      load_polychord_run = (\<lambda>path w. if 0 < w \<and> w \<le> length script
          then Inr (scripted_samples (nat (script ! (w - 1) + ninit)) ninit)
          else Inl ValueError),
      copyfile = (\<lambda>src dst w. Inr w),
      os_remove = (\<lambda>path w. Inr w),
      get_logx = (\<lambda>nl. []),
      rel_posterior_mass = (\<lambda>lx ll. weights),
      save_info = (\<lambda>c out rn w. Inr w),
      comm_rank = 0\<rparr>"

text \<open>The settings copy of an exploratory run with ten live points.\<close>

definition settings_a :: pc_settings where
  "settings_a = \<lparr>file_root = ''run_init'', base_dir = ''chains'', nlive = 10, nlives = Map.empty,
        read_resume = False, write_resume = True, max_ndead = - 1\<rparr>"

text \<open>
  A complete synthetic run: the caller's settings, the keyword arguments (one live
  point in the exploratory run, cap increment two) and a sampler scripted to stop the
  exploration with the history \<open>[2, 4, 5]\<close> and then to perform the dynamic run.
\<close>

definition settings_b :: pc_settings where
  "settings_b = \<lparr>file_root = ''run'', base_dir = ''chains'', nlive = 20, nlives = Map.empty,
        read_resume = False, write_resume = False, max_ndead = - 1\<rparr>"

definition kwargs_b :: dyn_kwargs where
  "kwargs_b = \<lparr>kw_ninit = Some 1, kw_init_step = Some 2, kw_dyn_nlive_step = None,
       kw_nlive_const = Some 20, kw_other = []\<rparr>"

definition env_b :: "nat dyn_env" where
  "env_b = scripted_env [2, 4, 5, 30] 1 [0, 0, 1 / 10, 1 / 2, 3 / 10, 1 / 10]"

section \<open>Synthetic runs\<close>

text \<open>
  A run given by its \<open>logl\<close> values, thread labels and bound pairs (one-dimensional
  \<open>theta\<close>, evaluation counter zero), and loaders that return two given runs for the
  roots \<^verbatim>\<open>run_init\<close> and \<^verbatim>\<open>run_dyn\<close>, a given \<^verbatim>\<open>dyn_info\<close> and a validator
  that accepts every run.
\<close>

definition run_c :: "real list \<Rightarrow> int list \<Rightarrow> (bound \<times> bound) list \<Rightarrow> run" where
  "run_c ls labels mm =
     \<lparr>theta = map (\<lambda>l. [l]) ls, logl = ls, nlive_array = map (\<lambda>l. 1) ls,
      thread_labels = labels, thread_min_max = mm,
      run_output = empty_info\<lparr>nlike := Some 0\<rparr>\<rparr>"

definition env_c :: "run \<Rightarrow> run \<Rightarrow> info \<Rightarrow> pd_env" where
  "env_c init_run dyn_run dyn_info =
     \<lparr>process_polychord_run = (\<lambda>root dir warn_only.
          if root = ''run_init'' then Inr init_run
          else if root = ''run_dyn'' then Inr dyn_run else Inl ValueError),
      pickle_load = (\<lambda>dir name. Inr dyn_info),
      check_ns_run = (\<lambda>r. None)\<rparr>"

section \<open>Properties of the helpers\<close>

lemma np_where_set: "set (np_where P xs) = {i. i < length xs \<and> P (xs ! i)}"
  by (auto simp: np_where_def)

lemma np_where_sorted: "sorted (np_where P xs)"
  by (simp add: np_where_def sorted_wrt_filter)

lemma np_where_distinct: "distinct (np_where P xs)"
  by (simp add: np_where_def)

lemma np_where_last_max:
  assumes "j \<in> set (np_where P xs)"
  shows "j \<le> last (np_where P xs)"
proof -
  have ne: "np_where P xs \<noteq> []" using assms by auto
  obtain k where k: "k < length (np_where P xs)" "np_where P xs ! k = j"
    using assms by (auto simp: in_set_conv_nth)
  have "np_where P xs ! k \<le> np_where P xs ! (length (np_where P xs) - 1)"
    using k(1) by (intro sorted_nth_mono[OF np_where_sorted]) auto
  then show ?thesis
    using k(2) ne by (simp add: last_conv_nth)
qed


section \<open>Resume selection\<close>

text \<open>
  Claim C3. Resume selection returns the dead count of the checkpoint with the largest
  index among those whose dead count minus one is strictly below the peak-onset index;
  when no checkpoint qualifies it raises \<^verbatim>\<open>IndexError\<close> (and nothing else), it does
  not fall back to a default.
\<close>

theorem resume_ndead_latest:
  "(resume_ndead step_ndead peak = Inr v \<longleftrightarrow>
      (\<exists>i < length step_ndead. v = step_ndead ! i \<and> step_ndead ! i - 1 < int peak \<and>
          (\<forall>j < length step_ndead. i < j \<longrightarrow> \<not> step_ndead ! j - 1 < int peak)))
   \<and> (resume_ndead step_ndead peak = Inl IndexError \<longleftrightarrow>
      (\<forall>i < length step_ndead. \<not> step_ndead ! i - 1 < int peak))
   \<and> (\<forall>e. resume_ndead step_ndead peak = Inl e \<longrightarrow> e = IndexError)"
proof -
  define W where "W = np_where (\<lambda>r. r < int peak) (resume_steps step_ndead)"
  have Wset: "set W = {i. i < length step_ndead \<and> step_ndead ! i - 1 < int peak}"
    by (auto simp: W_def np_where_set resume_steps_def)
  show ?thesis
  proof (cases W)
    case Nil
    then have "resume_ndead step_ndead peak = Inl IndexError"
      by (simp add: resume_ndead_def W_def)
    moreover have "\<forall>i < length step_ndead. \<not> step_ndead ! i - 1 < int peak"
      using Wset Nil by auto
    ultimately show ?thesis by auto
  next
    case (Cons a as)
    then have r: "resume_ndead step_ndead peak = Inr (step_ndead ! last W)"
      by (simp add: resume_ndead_def W_def)
    have lastin: "last W \<in> set W" using Cons by simp
    have mx: "\<And>j. j \<in> set W \<Longrightarrow> j \<le> last W"
      unfolding W_def by (rule np_where_last_max)
    have uniq: "\<And>i. i < length step_ndead \<Longrightarrow> step_ndead ! i - 1 < int peak \<Longrightarrow>
        (\<forall>j < length step_ndead. i < j \<longrightarrow> \<not> step_ndead ! j - 1 < int peak) \<Longrightarrow> i = last W"
    proof -
      fix i assume i: "i < length step_ndead" "step_ndead ! i - 1 < int peak"
        and m: "\<forall>j < length step_ndead. i < j \<longrightarrow> \<not> step_ndead ! j - 1 < int peak"
      have "i \<in> set W" using i Wset by simp
      then have "i \<le> last W" by (rule mx)
      moreover have "\<not> i < last W" using m lastin Wset by auto
      ultimately show "i = last W" by simp
    qed
    have ex: "last W < length step_ndead \<and> step_ndead ! last W - 1 < int peak \<and>
       (\<forall>j < length step_ndead. last W < j \<longrightarrow> \<not> step_ndead ! j - 1 < int peak)"
      using lastin Wset mx by fastforce
    show ?thesis using r ex uniq by auto
  qed
qed

theorem resume_ndead_latest_witness:
  "resume_ndead [5, 9, 14] 10 = Inr 9 \<and> [5, 9, 14 :: int] ! 1 - 1 < int 10"
  using resume_ndead_latest[of "[5, 9, 14]" 10 9]
  by (auto simp: resume_ndead_def resume_steps_def np_where_def upt_rec)

text \<open>
  Claim C4, as stated: for the history \<open>[10, 20, 30, 40]\<close> and peak-onset index \<open>25\<close>
  the checkpoint at dead count \<open>30\<close> is selected. It is not: \<open>30 - 1 = 29\<close> is not
  below \<open>25\<close>.
\<close>

theorem resume_ndead_example_not_30: "resume_ndead [10, 20, 30, 40] 25 \<noteq> Inr 30"
  by (simp add: resume_ndead_def resume_steps_def np_where_def upt_rec)

text \<open>
  Claim C4, as amended. For the checkpoint history \<open>[10, 20, 30, 40]\<close> and peak-onset
  index \<open>25\<close> the shifted counts are \<open>[9, 19, 29, 39]\<close>; the last of them below
  \<open>25\<close> is \<open>19\<close>, so the selected checkpoint is the one at dead count \<open>20\<close>.
\<close>

theorem resume_ndead_example: "resume_ndead [10, 20, 30, 40] 25 = Inr 20"
  by (simp add: resume_ndead_def resume_steps_def np_where_def upt_rec)

section \<open>The live point schedule\<close>









lemma enumerate_butlast_set:
  "(i, x) \<in> set (enumerate 0 (butlast xs)) \<Longrightarrow> i < length xs - 1 \<and> x = xs ! i"
  by (auto simp: in_set_enumerate_eq nth_butlast)



text \<open>
  The schedule is emitted (no exception) for a non-zero stride when the target array
  and the \<open>logl\<close> array are at least as long as the weight array.
\<close>

lemma nlives_dict_loop_returns:
  "(\<forall>(i, step) \<in> set ps. nat (stps ! (i + 1)) < length nl \<and> nat step < length lg) \<Longrightarrow>
   \<exists>d'. nlives_dict_loop nl lg stps ps d = Inr d'"
proof (induction ps arbitrary: d)
  case Nil
  then show ?case by simp
next
  case (Cons a ps)
  obtain i step where a: "a = (i, step)" by (cases a)
  have rest: "\<forall>(i, step) \<in> set ps. nat (stps ! (i + 1)) < length nl \<and> nat step < length lg"
    using Cons.prems by auto
  have here: "nat (stps ! (i + 1)) < length nl" "nat step < length lg"
    using Cons.prems a by auto
  show ?case using Cons.IH[OF rest] here a by (simp add: Let_def)
qed

lemma nlives_dict_returns:
  assumes "dyn_nlive_step \<noteq> 0" and "n \<le> length nl" and "n \<le> length lg"
  shows "\<exists>sched. nlives_dict nl lg n dyn_nlive_step ninit = Inr sched"
proof -
  define stps where "stps = map (\<lambda>j. dyn_nlive_step * int j) [0..<nat (int n div dyn_nlive_step)]"
  have st: "steps n dyn_nlive_step = Inr stps"
    using assms(1) by (simp add: steps_def stps_def)
  let ?m = "nat (int n div dyn_nlive_step)"
  have bound: "\<And>i. i < ?m \<Longrightarrow> nat (dyn_nlive_step * int i) < n"
  proof -
    fix i assume i: "i < ?m"
    then have pos: "0 < int n div dyn_nlive_step" by simp
    have dpos: "0 < dyn_nlive_step"
    proof (rule ccontr)
      assume "\<not> 0 < dyn_nlive_step"
      then have "dyn_nlive_step < 0" using assms(1) by simp
      then have "int n div dyn_nlive_step \<le> 0"
        by (simp add: div_nonneg_neg_le0)
      then show False using pos by simp
    qed
    have "int i + 1 \<le> int n div dyn_nlive_step" using i by simp
    then have "dyn_nlive_step * (int i + 1) \<le> dyn_nlive_step * (int n div dyn_nlive_step)"
      using dpos by (simp add: mult_left_mono)
    also have "\<dots> \<le> int n"
    proof -
      have "dyn_nlive_step * (int n div dyn_nlive_step) + int n mod dyn_nlive_step = int n"
        by simp
      moreover have "0 \<le> int n mod dyn_nlive_step" using dpos by simp
      ultimately show ?thesis by linarith
    qed
    finally have "dyn_nlive_step * int i + dyn_nlive_step \<le> int n"
      by (simp add: algebra_simps)
    then have "dyn_nlive_step * int i < int n" using dpos by simp
    moreover have "0 \<le> dyn_nlive_step * int i" using dpos by simp
    ultimately show "nat (dyn_nlive_step * int i) < n" by linarith
  qed
  have "\<forall>(i, step) \<in> set (enumerate 0 (butlast stps)).
      nat (stps ! (i + 1)) < length nl \<and> nat step < length lg"
  proof (clarify)
    fix i step assume m: "(i, step) \<in> set (enumerate 0 (butlast stps))"
    from enumerate_butlast_set[OF m] have i: "i + 1 < ?m" and s: "step = stps ! i"
      by (auto simp: stps_def)
    have "stps ! (i + 1) = dyn_nlive_step * int (i + 1)" using i by (simp add: stps_def)
    moreover have "step = dyn_nlive_step * int i" using i s by (simp add: stps_def)
    ultimately show "nat (stps ! (i + 1)) < length nl \<and> nat step < length lg"
      using bound[of "i + 1"] bound[of i] i assms(2,3) by simp
  qed
  from nlives_dict_loop_returns[OF this] st show ?thesis
    by (simp add: nlives_dict_def)
qed




section \<open>The exploration loop\<close>

lemma exploration_iteration_history:
  assumes "exploration_iteration env ninit init_step pc st w h = (Inr (ap, w', h'), st')"
  shows "length h' = Suc (length h)" and "ap = add_points_after h'"
  using assms
  by (auto simp: exploration_iteration_def Let_def split: sum.splits prod.splits if_splits)

lemma exploration_loop_exit:
  assumes "exploration_loop env ninit init_step pc st w h = Some y"
  shows "\<forall>w' h' st'. y = (Inr (w', h'), st') \<longrightarrow> length h < length h' \<and> \<not> add_points_after h'"
proof (rule exploration_loop.raw_induct[OF _ assms], goal_cases)
  case (1 loop env ninit init_step pc st w h y)
  show ?case
  proof (intro allI impI)
    fix w' h' st' assume y: "y = (Inr (w', h'), st')"
    obtain r st1 where it: "exploration_iteration env ninit init_step pc st w h = (r, st1)"
      by (cases "exploration_iteration env ninit init_step pc st w h")
    show "length h < length h' \<and> \<not> add_points_after h'"
    proof (cases r)
      case (Inl e)
      with 1(2) it y show ?thesis by simp
    next
      case (Inr t)
      obtain ap w1 h1 where t: "t = (ap, w1, h1)" by (cases t)
      have it': "exploration_iteration env ninit init_step pc st w h = (Inr (ap, w1, h1), st1)"
        using it Inr t by simp
      note hist = exploration_iteration_history[OF it']
      show ?thesis
      proof (cases ap)
        case True
        with 1(2) it' have "loop env ninit init_step pc st1 w1 h1 = Some y" by simp
        from 1(1)[OF this] y have "length h1 < length h' \<and> \<not> add_points_after h'" by blast
        with hist(1) show ?thesis by simp
      next
        case False
        with 1(2) it' y have "w' = w1" "h' = h1" "st' = st1" by simp_all
        with hist False show ?thesis by simp
      qed
    qed
  qed
qed

lemma np_unique_length: "length (np_unique xs) = card (set xs)"
  by (simp add: np_unique_def length_remdups_card_conv)

lemma mod_labels_set:
  assumes "0 < ninit" and "nat ninit \<le> m"
  shows "set (map (\<lambda>i. int i mod ninit) [0..<m]) = {0..<ninit}"
proof
  show "set (map (\<lambda>i. int i mod ninit) [0..<m]) \<subseteq> {0..<ninit}"
    using assms(1) by auto
  show "{0..<ninit} \<subseteq> set (map (\<lambda>i. int i mod ninit) [0..<m])"
  proof
    fix x assume x: "x \<in> {0..<ninit}"
    then have "nat x < m" using assms by auto
    moreover have "int (nat x) mod ninit = x" using x by simp
    ultimately show "x \<in> set (map (\<lambda>i. int i mod ninit) [0..<m])"
      by (metis (mono_tags, lifting) atLeast0LessThan image_eqI lessThan_iff list.set_map set_upt)
  qed
qed


lemma scripted_iteration:
  assumes "w < length script" and "0 < ninit" and "0 \<le> script ! w"
    and "pc < length st" and "nlive (st ! pc) = ninit"
  shows "exploration_iteration (scripted_env script ninit weights) ninit init_step pc st w h
       = (Inr (add_points_after (h @ [script ! w]), Suc w, h @ [script ! w]),
          setattr (if length h = 1 then setattr st pc (\<lambda>c. c\<lparr>read_resume := True\<rparr>) else st) pc
            (\<lambda>c. c\<lparr>max_ndead := (int (length h) + 1) * init_step\<rparr>))"
proof -
  define st1 where "st1 = (if length h = 1 then setattr st pc (\<lambda>c. c\<lparr>read_resume := True\<rparr>) else st)"
  define st2 where "st2 = setattr st1 pc (\<lambda>c. c\<lparr>max_ndead := (int (length h) + 1) * init_step\<rparr>)"
  have l1: "length st1 = length st" and n1: "nlive (st1 ! pc) = ninit"
    using assms(4,5) by (auto simp: st1_def setattr_def)
  have l2: "length st2 = length st" and n2: "nlive (st2 ! pc) = ninit"
    using l1 n1 assms(4) by (auto simp: st2_def setattr_def)
  have "nat ninit \<le> nat (script ! w + ninit)" using assms(2,3) by simp
  from mod_labels_set[OF assms(2) this]
  have "card (set (map (\<lambda>i. int i mod ninit) [0..<nat (script ! w + ninit)])) = nat ninit"
    by (simp only: card_atLeastLessThan_int)
  then have u: "int (length (np_unique (map (\<lambda>i. int i mod ninit) [0..<nat (script ! w + ninit)]))) = ninit"
    using assms(2) by (simp only: np_unique_length)
  have len: "int (length (map (\<lambda>i. int i mod ninit) [0..<nat (script ! w + ninit)])) = script ! w + ninit"
    using assms(2,3) by simp
  have rp: "run_polychord (scripted_env script ninit weights) (st2 ! pc) w
      = Inr (\<lparr>ndead = script ! w + ninit\<rparr>, Suc w)"
    using assms(1) n2 by (simp add: scripted_env_def)
  have ld: "\<And>path. load_polychord_run (scripted_env script ninit weights) path (Suc w)
      = Inr (scripted_samples (nat (script ! w + ninit)) ninit)"
    using assms(1) by (simp add: scripted_env_def)
  have tl: "thread_labels (scripted_samples (nat (script ! w + ninit)) ninit)
      = map (\<lambda>i. int i mod ninit) [0..<nat (script ! w + ninit)]"
    by (simp add: scripted_samples_def)
  have cp: "\<And>a b v. copyfile (scripted_env script ninit weights) a b v = Inr v"
    by (simp add: scripted_env_def)
  have "exploration_iteration (scripted_env script ninit weights) ninit init_step pc st w h
       = (Inr (add_points_after (h @ [script ! w]), Suc w, h @ [script ! w]), st2)"
    unfolding exploration_iteration_def st2_def[symmetric] st1_def[symmetric] Let_def
    by (simp only: rp ld cp n2 tl u len sum.case prod.case pc_output.simps
          add_diff_cancel_right' if_False simp_thms)
  then show ?thesis by (simp only: st2_def st1_def)
qed


lemma scripted_iterations:
  "exploration_iteration (scripted_env [50, 100, 101] 10 []) 10 50 0 [settings_a] 0 []
     = (Inr (True, 1, [50]), [settings_a\<lparr>max_ndead := 50\<rparr>])"
  "exploration_iteration (scripted_env [50, 100, 101] 10 []) 10 50 0 [settings_a\<lparr>max_ndead := 50\<rparr>] 1 [50]
     = (Inr (True, 2, [50, 100]), [settings_a\<lparr>read_resume := True, max_ndead := 100\<rparr>])"
  "exploration_iteration (scripted_env [50, 100, 101] 10 []) 10 50 0
       [settings_a\<lparr>read_resume := True, max_ndead := 100\<rparr>] 2 [50, 100]
     = (Inr (False, 3, [50, 100, 101]), [settings_a\<lparr>read_resume := True, max_ndead := 150\<rparr>])"
proof -
  show "exploration_iteration (scripted_env [50, 100, 101] 10 []) 10 50 0 [settings_a] 0 []
     = (Inr (True, 1, [50]), [settings_a\<lparr>max_ndead := 50\<rparr>])"
    using scripted_iteration[where w = 0 and script = "[50, 100, 101]" and ninit = 10 and weights = "[]" and pc = 0
            and st = "[settings_a]" and h = "[]" and init_step = 50]
    by (simp add: settings_a_def setattr_def add_points_after_def)
  show "exploration_iteration (scripted_env [50, 100, 101] 10 []) 10 50 0 [settings_a\<lparr>max_ndead := 50\<rparr>] 1 [50]
     = (Inr (True, 2, [50, 100]), [settings_a\<lparr>read_resume := True, max_ndead := 100\<rparr>])"
    using scripted_iteration[where w = 1 and script = "[50, 100, 101]" and ninit = 10 and weights = "[]" and pc = 0
            and st = "[settings_a\<lparr>max_ndead := 50\<rparr>]" and h = "[50]" and init_step = 50]
    by (simp add: settings_a_def setattr_def add_points_after_def)
  show "exploration_iteration (scripted_env [50, 100, 101] 10 []) 10 50 0
       [settings_a\<lparr>read_resume := True, max_ndead := 100\<rparr>] 2 [50, 100]
     = (Inr (False, 3, [50, 100, 101]), [settings_a\<lparr>read_resume := True, max_ndead := 150\<rparr>])"
    using scripted_iteration[where w = 2 and script = "[50, 100, 101]" and ninit = 10 and weights = "[]" and pc = 0
            and st = "[settings_a\<lparr>read_resume := True, max_ndead := 100\<rparr>]" and h = "[50, 100]"
            and init_step = 50]
    by (simp add: settings_a_def setattr_def add_points_after_def)
qed

lemma scripted_run:
  "exploration_loop (scripted_env [50, 100, 101] 10 []) 10 50 0 [settings_a] 0 []
   = Some (Inr (3, [50, 100, 101]), [settings_a\<lparr>read_resume := True, max_ndead := 150\<rparr>])"
proof -
  let ?env = "scripted_env [50, 100, 101] 10 []"
  have "exploration_loop ?env 10 50 0 [settings_a] 0 []
      = exploration_loop ?env 10 50 0 [settings_a\<lparr>max_ndead := 50\<rparr>] 1 [50]"
    by (subst exploration_loop.simps)
       (simp only: scripted_iterations(1) prod.case sum.case if_True if_False)
  also have "\<dots> = exploration_loop ?env 10 50 0
      [settings_a\<lparr>read_resume := True, max_ndead := 100\<rparr>] 2 [50, 100]"
    by (subst exploration_loop.simps)
       (simp only: scripted_iterations(2) prod.case sum.case if_True if_False)
  also have "\<dots> = Some (Inr (3, [50, 100, 101]), [settings_a\<lparr>read_resume := True, max_ndead := 150\<rparr>])"
    by (subst exploration_loop.simps)
       (simp only: scripted_iterations(3) prod.case sum.case if_True if_False)
  finally show ?thesis .
qed

text \<open>
  Claim C2. For an iteration of the exploration loop that completes (none of its checks or
  collaborators raises), the loop stops after this iteration, returning the history it
  recorded, if and only if that history has at least two entries and its last entry is
  its last but one plus one; otherwise the loop goes on from the state the iteration
  left. In particular, with a sampler scripted to give the history \<open>[50, 100, 101]\<close>
  (ten live points, cap increment fifty, reported dead counts \<open>60, 110, 111\<close>) the loop
  returns after the third sampler call with that history.
\<close>

theorem exploration_loop_stops_iff:
  "(\<forall>add_points w' step_ndead' st'.
      exploration_iteration env ninit init_step pc st w step_ndead
        = (Inr (add_points, w', step_ndead'), st') \<longrightarrow>
      ((exploration_loop env ninit init_step pc st w step_ndead = Some (Inr (w', step_ndead'), st'))
         \<longleftrightarrow> (2 \<le> length step_ndead' \<and>
              step_ndead' ! (length step_ndead' - 1) = step_ndead' ! (length step_ndead' - 2) + 1))
      \<and> (\<not> (2 \<le> length step_ndead' \<and>
              step_ndead' ! (length step_ndead' - 1) = step_ndead' ! (length step_ndead' - 2) + 1)
          \<longrightarrow> exploration_loop env ninit init_step pc st w step_ndead
              = exploration_loop env ninit init_step pc st' w' step_ndead'))
   \<and> exploration_loop (scripted_env [50, 100, 101] 10 []) 10 50 0 [settings_a] 0 []
       = Some (Inr (3, [50, 100, 101]), [settings_a\<lparr>read_resume := True, max_ndead := 150\<rparr>])"
proof -
  have "(exploration_loop env ninit init_step pc st w step_ndead = Some (Inr (w', step_ndead'), st'))
       \<longleftrightarrow> (2 \<le> length step_ndead' \<and>
              step_ndead' ! (length step_ndead' - 1) = step_ndead' ! (length step_ndead' - 2) + 1)"
    if it: "exploration_iteration env ninit init_step pc st w step_ndead
        = (Inr (add_points, w', step_ndead'), st')"
    for add_points w' step_ndead' st'
  proof
    assume r: "exploration_loop env ninit init_step pc st w step_ndead = Some (Inr (w', step_ndead'), st')"
    from exploration_loop_exit[OF r] have "\<not> add_points_after step_ndead'" by blast
    then show "2 \<le> length step_ndead' \<and>
          step_ndead' ! (length step_ndead' - 1) = step_ndead' ! (length step_ndead' - 2) + 1"
      by (simp add: add_points_after_def)
  next
    assume "2 \<le> length step_ndead' \<and>
          step_ndead' ! (length step_ndead' - 1) = step_ndead' ! (length step_ndead' - 2) + 1"
    then have "\<not> add_points_after step_ndead'" by (simp add: add_points_after_def)
    then have "\<not> add_points" using exploration_iteration_history(2)[OF it] by simp
    then show "exploration_loop env ninit init_step pc st w step_ndead = Some (Inr (w', step_ndead'), st')"
      using it by (subst exploration_loop.simps) simp
  qed
  moreover have "exploration_loop env ninit init_step pc st w step_ndead
              = exploration_loop env ninit init_step pc st' w' step_ndead'"
    if it: "exploration_iteration env ninit init_step pc st w step_ndead
        = (Inr (add_points, w', step_ndead'), st')"
      and ns: "\<not> (2 \<le> length step_ndead' \<and>
              step_ndead' ! (length step_ndead' - 1) = step_ndead' ! (length step_ndead' - 2) + 1)"
    for add_points w' step_ndead' st'
  proof -
    have "add_points_after step_ndead'" using ns by (simp add: add_points_after_def)
    then have "add_points" using exploration_iteration_history(2)[OF it] by simp
    then show ?thesis using it by (subst exploration_loop.simps) simp
  qed
  ultimately show ?thesis using scripted_run by blast
qed

theorem exploration_loop_stops_iff_witness:
  "exploration_iteration (scripted_env [50, 100, 101] 10 []) 10 50 0
       [settings_a\<lparr>read_resume := True, max_ndead := 100\<rparr>] 2 [50, 100]
     = (Inr (False, 3, [50, 100, 101]), [settings_a\<lparr>read_resume := True, max_ndead := 150\<rparr>])
   \<and> exploration_loop (scripted_env [50, 100, 101] 10 []) 10 50 0
       [settings_a\<lparr>read_resume := True, max_ndead := 100\<rparr>] 2 [50, 100]
     = Some (Inr (3, [50, 100, 101]), [settings_a\<lparr>read_resume := True, max_ndead := 150\<rparr>])
   \<and> 2 \<le> length [50, 100, 101 :: int]
   \<and> [50, 100, 101] ! (length [50, 100, 101 :: int] - 1)
       = [50, 100, 101] ! (length [50, 100, 101 :: int] - 2) + (1 :: int)"
proof -
  note it = scripted_iterations(3)
  have stop: "2 \<le> length [50, 100, 101 :: int]
    \<and> [50, 100, 101] ! (length [50, 100, 101 :: int] - 1)
       = [50, 100, 101] ! (length [50, 100, 101 :: int] - 2) + (1 :: int)"
    by simp
  have "\<forall>add_points w' step_ndead' st'.
      exploration_iteration (scripted_env [50, 100, 101] 10 []) 10 50 0
          [settings_a\<lparr>read_resume := True, max_ndead := 100\<rparr>] 2 [50, 100]
        = (Inr (add_points, w', step_ndead'), st') \<longrightarrow>
      ((exploration_loop (scripted_env [50, 100, 101] 10 []) 10 50 0
          [settings_a\<lparr>read_resume := True, max_ndead := 100\<rparr>] 2 [50, 100]
          = Some (Inr (w', step_ndead'), st'))
         \<longleftrightarrow> (2 \<le> length step_ndead' \<and>
              step_ndead' ! (length step_ndead' - 1) = step_ndead' ! (length step_ndead' - 2) + 1))
      \<and> (\<not> (2 \<le> length step_ndead' \<and>
              step_ndead' ! (length step_ndead' - 1) = step_ndead' ! (length step_ndead' - 2) + 1)
          \<longrightarrow> exploration_loop (scripted_env [50, 100, 101] 10 []) 10 50 0
                [settings_a\<lparr>read_resume := True, max_ndead := 100\<rparr>] 2 [50, 100]
              = exploration_loop (scripted_env [50, 100, 101] 10 []) 10 50 0 st' w' step_ndead')"
    by (rule conjunct1[OF exploration_loop_stops_iff])
  with it stop show ?thesis by blast
qed

section \<open>The caller's settings\<close>

lemma setattr_frame:
  "n \<le> r \<Longrightarrow> take n (setattr st r upd) = take n st \<and> length (setattr st r upd) = length st"
  by (simp add: setattr_def)

lemma deepcopy_frame:
  "deepcopy st r = (pc, st1) \<Longrightarrow> n \<le> length st \<Longrightarrow>
   take n st1 = take n st \<and> pc = length st \<and> length st1 = Suc (length st)"
  by (auto simp: deepcopy_def)

lemma init_settings_frame:
  assumes "init_settings st r ninit = (pc, st1)" and "n \<le> length st"
  shows "take n st1 = take n st \<and> pc = length st \<and> length st1 = Suc (length st)"
proof -
  obtain pc0 st0 where d: "deepcopy st r = (pc0, st0)" by (cases "deepcopy st r")
  from deepcopy_frame[OF d assms(2)] have f: "take n st0 = take n st" "pc0 = length st"
    "length st0 = Suc (length st)" by simp_all
  have "n \<le> pc0" using f(2) assms(2) by simp
  then show ?thesis
    using assms(1) d f by (auto simp: init_settings_def Let_def setattr_frame)
qed

lemma exploration_iteration_frame:
  assumes "exploration_iteration env ninit init_step pc st w h = (r, st')" and "n \<le> pc"
  shows "take n st' = take n st \<and> length st' = length st"
proof -
  define st2 where "st2 = setattr (if length h = 1 then setattr st pc (\<lambda>c. c\<lparr>read_resume := True\<rparr>) else st) pc
            (\<lambda>c. c\<lparr>max_ndead := (int (length h) + 1) * init_step\<rparr>)"
  have "st' = st2"
    using assms(1) unfolding exploration_iteration_def Let_def st2_def[symmetric]
    by (auto split: sum.splits prod.splits if_splits)
  moreover have "take n st2 = take n st \<and> length st2 = length st"
    using assms(2) by (simp add: st2_def setattr_frame)
  ultimately show ?thesis by simp
qed

lemma exploration_loop_frame:
  assumes "exploration_loop env ninit init_step pc st w h = Some y"
  shows "n \<le> pc \<longrightarrow> take n (snd y) = take n st \<and> length (snd y) = length st"
proof (rule exploration_loop.raw_induct[OF _ assms], goal_cases)
  case (1 loop env ninit init_step pc st w h y)
  show ?case
  proof
    assume n: "n \<le> pc"
    obtain r st1 where it: "exploration_iteration env ninit init_step pc st w h = (r, st1)"
      by (cases "exploration_iteration env ninit init_step pc st w h")
    note f = exploration_iteration_frame[OF it n]
    show "take n (snd y) = take n st \<and> length (snd y) = length st"
    proof (cases r)
      case (Inl e)
      with 1(2) it have "y = (Inl e, st1)" by simp
      with f show ?thesis by simp
    next
      case (Inr t)
      obtain ap w1 h1 where t: "t = (ap, w1, h1)" by (cases t)
      show ?thesis
      proof (cases ap)
        case True
        with 1(2) it Inr t have "loop env ninit init_step pc st1 w1 h1 = Some y" by simp
        from 1(1)[OF this] n f show ?thesis by simp
      next
        case False
        with 1(2) it Inr t have "y = (Inr (w1, h1), st1)" by simp
        with f show ?thesis by simp
      qed
    qed
  qed
qed

lemma dynamic_phase_frame:
  assumes "dynamic_phase env ninit dyn_nlive_step nlive_const pc_in pc_init st w h = (r, st')"
    and "n \<le> length st"
  shows "take n st' = take n st"
proof -
  define pc where "pc = length st"
  define st1 where "st1 = st @ [st ! pc_in]"
  have d: "deepcopy st pc_in = (pc, st1)" by (simp add: deepcopy_def pc_def st1_def)
  have n: "n \<le> pc" using assms(2) pc_def by simp
  have f1: "take n st1 = take n st" using assms(2) by (simp add: st1_def)
  define st4 where "st4 d' = setattr (setattr (setattr st1 pc (\<lambda>c. c\<lparr>nlive := dyn_nlive_step\<rparr>)) pc
       (\<lambda>c. c\<lparr>nlives := d'\<rparr>)) pc (\<lambda>c. c\<lparr>read_resume := True\<rparr>)" for d'
  have f4: "\<And>d'. take n (st4 d') = take n st" using n f1 by (simp add: st4_def setattr_frame)
  have f5: "\<And>d' u. take n (setattr (st4 d') pc u) = take n st" using n f4 by (simp add: setattr_frame)
  have "st' = st \<or> st' = st1 \<or> (\<exists>d'. st' = st4 d') \<or> (\<exists>d' u. st' = setattr (st4 d') pc u)"
    using assms(1) unfolding dynamic_phase_def d Let_def prod.case st4_def
    by (auto split: sum.splits prod.splits if_splits)
  then show ?thesis using f1 f4 f5 by auto
qed

text \<open>
  Claim C8. Whenever \<^verbatim>\<open>run_dynamic_polychord\<close> returns or raises, the object
  \<open>pc_settings_in\<close> refers to holds what it held before the call; so does every other
  object that existed before the call. All assignments go to the two deep copies, which
  are allocated after the objects of the caller.
\<close>

theorem settings_in_unchanged:
  assumes "run_dynamic_polychord env st w pc_settings_in kwargs = Some (r, st')"
    and "pc_settings_in < length st"
  shows "st' ! pc_settings_in = st ! pc_settings_in \<and> take (length st) st' = st"
proof -
  define ninit where "ninit = (case kw_ninit kwargs of None \<Rightarrow> 10 | Some n \<Rightarrow> n)"
  define init_step where "init_step = (case kw_init_step kwargs of None \<Rightarrow> ninit | Some n \<Rightarrow> n)"
  define dyn_nlive_step where "dyn_nlive_step = (case kw_dyn_nlive_step kwargs of None \<Rightarrow> 1 | Some n \<Rightarrow> n)"
  define nlive_const where "nlive_const = (case kw_nlive_const kwargs of
                           None \<Rightarrow> nlive (st ! pc_settings_in) | Some n \<Rightarrow> n)"
  obtain pc st1 where ist: "init_settings st pc_settings_in ninit = (pc, st1)"
    by (cases "init_settings st pc_settings_in ninit")
  from init_settings_frame[OF ist order_refl]
  have f1: "take (length st) st1 = take (length st) st" "pc = length st" "length st1 = Suc (length st)"
    by simp_all
  have "take (length st) st' = take (length st) st"
  proof (cases "kw_other kwargs \<noteq> [] \<or> nlives (st ! pc_settings_in) \<noteq> Map.empty
                 \<or> read_resume (st ! pc_settings_in)")
    case True
    then have "st' = st" using assms(1)
      by (auto simp: run_dynamic_polychord_def Let_def split: if_splits)
    then show ?thesis by simp
  next
    case False
    then have run: "(case exploration_loop env ninit init_step pc st1 w [] of
              None \<Rightarrow> None
            | Some (Inl e, st2) \<Rightarrow> Some (Inl e, st2)
            | Some (Inr (w', step_ndead), st2) \<Rightarrow>
                Some (dynamic_phase env ninit dyn_nlive_step nlive_const pc_settings_in pc
                        st2 w' step_ndead)) = Some (r, st')"
      using assms(1) ist
      unfolding run_dynamic_polychord_def Let_def ninit_def init_step_def dyn_nlive_step_def
            nlive_const_def
      by simp
    then obtain y where y: "exploration_loop env ninit init_step pc st1 w [] = Some y"
      by (cases "exploration_loop env ninit init_step pc st1 w []") auto
    from exploration_loop_frame[OF y, of "length st"] f1
    have f2: "take (length st) (snd y) = take (length st) st" "length (snd y) = Suc (length st)"
      by simp_all
    obtain r2 st2 where yy: "y = (r2, st2)" by (cases y)
    show ?thesis
    proof (cases r2)
      case (Inl e)
      with run y yy have "st' = st2" by simp
      with f2 yy show ?thesis by simp
    next
      case (Inr t)
      obtain w' h where t: "t = (w', h)" by (cases t)
      from run y yy Inr t have
        dp: "dynamic_phase env ninit dyn_nlive_step nlive_const pc_settings_in pc st2 w' h = (r, st')"
        by simp
      have "length st \<le> length st2" using f2 yy by simp
      from dynamic_phase_frame[OF dp this] f2 yy show ?thesis by simp
    qed
  qed
  then have t: "take (length st) st' = st" by simp
  have "st' ! pc_settings_in = take (length st) st' ! pc_settings_in"
    using assms(2) by simp
  with t show ?thesis by simp
qed


lemma env_b_loop:
  assumes "nlive c = 1"
  shows "exploration_loop env_b 1 2 1 [settings_b, c] 0 []
     = Some (Inr (3, [2, 4, 5]), [settings_b, c\<lparr>read_resume := True, max_ndead := 6\<rparr>])"
proof -
  have 1: "exploration_iteration env_b 1 2 1 [settings_b, c] 0 []
     = (Inr (True, 1, [2]), [settings_b, c\<lparr>max_ndead := 2\<rparr>])"
    using scripted_iteration[where w = 0 and script = "[2, 4, 5, 30]" and ninit = 1
            and weights = "[0, 0, 1 / 10, 1 / 2, 3 / 10, 1 / 10]" and pc = 1
            and st = "[settings_b, c]" and h = "[]" and init_step = 2] assms
    by (simp add: env_b_def setattr_def add_points_after_def)
  have 2: "exploration_iteration env_b 1 2 1 [settings_b, c\<lparr>max_ndead := 2\<rparr>] 1 [2]
     = (Inr (True, 2, [2, 4]), [settings_b, c\<lparr>read_resume := True, max_ndead := 4\<rparr>])"
    using scripted_iteration[where w = 1 and script = "[2, 4, 5, 30]" and ninit = 1
            and weights = "[0, 0, 1 / 10, 1 / 2, 3 / 10, 1 / 10]" and pc = 1
            and st = "[settings_b, c\<lparr>max_ndead := 2\<rparr>]" and h = "[2]" and init_step = 2] assms
    by (simp add: env_b_def setattr_def add_points_after_def)
  have 3: "exploration_iteration env_b 1 2 1
       [settings_b, c\<lparr>read_resume := True, max_ndead := 4\<rparr>] 2 [2, 4]
     = (Inr (False, 3, [2, 4, 5]), [settings_b, c\<lparr>read_resume := True, max_ndead := 6\<rparr>])"
    using scripted_iteration[where w = 2 and script = "[2, 4, 5, 30]" and ninit = 1
            and weights = "[0, 0, 1 / 10, 1 / 2, 3 / 10, 1 / 10]" and pc = 1
            and st = "[settings_b, c\<lparr>read_resume := True, max_ndead := 4\<rparr>]" and h = "[2, 4]"
            and init_step = 2] assms
    by (simp add: env_b_def setattr_def add_points_after_def)
  have "exploration_loop env_b 1 2 1 [settings_b, c] 0 []
      = exploration_loop env_b 1 2 1 [settings_b, c\<lparr>max_ndead := 2\<rparr>] 1 [2]"
    by (subst exploration_loop.simps) (simp only: 1 prod.case sum.case if_True if_False)
  also have "\<dots> = exploration_loop env_b 1 2 1
      [settings_b, c\<lparr>read_resume := True, max_ndead := 4\<rparr>] 2 [2, 4]"
    by (subst exploration_loop.simps) (simp only: 2 prod.case sum.case if_True if_False)
  also have "\<dots> = Some (Inr (3, [2, 4, 5]), [settings_b, c\<lparr>read_resume := True, max_ndead := 6\<rparr>])"
    by (subst exploration_loop.simps) (simp only: 3 prod.case sum.case if_True if_False)
  finally show ?thesis .
qed

lemma env_b_schedule:
  "peak_start_ind (nlives_array_scaled [0, 0, 1 / 10, 1 / 2, 3 / 10, 1 / 10] (- 1) 6 20 1) 1 = Inr 2"
  "nlives_array_clamped (nlives_array_scaled [0, 0, 1 / 10, 1 / 2, 3 / 10, 1 / 10] (- 1) 6 20 1) 2 1
     = [1, 1, 57 / 5, 57, 171 / 5, 57 / 5]"
  "nlives_dict [1, 1, 57 / 5, 57, 171 / 5, 57 / 5] (map real [0..<6]) 6 1 1
     = Inr [seed_logl \<mapsto> 1, 0 \<mapsto> 1, 1 \<mapsto> 11, 2 \<mapsto> 57, 3 \<mapsto> 34, 4 \<mapsto> 11]"
  "resume_ndead [2, 4, 5] 2 = Inr 2"
proof -
  show "peak_start_ind (nlives_array_scaled [0, 0, 1 / 10, 1 / 2, 3 / 10, 1 / 10] (- 1) 6 20 1) 1 = Inr 2"
    by (simp add: peak_start_ind_def nlives_array_scaled_def np_where_def upt_rec)
  show "nlives_array_clamped (nlives_array_scaled [0, 0, 1 / 10, 1 / 2, 3 / 10, 1 / 10] (- 1) 6 20 1) 2 1
     = [1, 1, 57 / 5, 57, 171 / 5, 57 / 5]"
    by (simp add: nlives_array_clamped_def nlives_array_scaled_def upt_rec)
  show "nlives_dict [1, 1, 57 / 5, 57, 171 / 5, 57 / 5] (map real [0..<6]) 6 1 1
     = Inr [seed_logl \<mapsto> 1, 0 \<mapsto> 1, 1 \<mapsto> 11, 2 \<mapsto> 57, 3 \<mapsto> 34, 4 \<mapsto> 11]"
    by (simp add: nlives_dict_def steps_def upt_rec enumerate_eq_zip py_int_def)
  show "resume_ndead [2, 4, 5] 2 = Inr 2"
    by (simp add: resume_ndead_def resume_steps_def np_where_def upt_rec)
qed


lemma env_b_remove: "remove_resumes env_b c h w = Inr w"
  by (induction h arbitrary: w) (simp_all add: env_b_def scripted_env_def)

lemma env_b_dynamic_phase:
  "dynamic_phase env_b 1 1 20 0 1 [settings_b, c] 3 [2, 4, 5]
     = (Inr 4, [settings_b, c,
          settings_b\<lparr>nlive := 1,
            nlives := [seed_logl \<mapsto> 1, 0 \<mapsto> 1, 1 \<mapsto> 11, 2 \<mapsto> 57, 3 \<mapsto> 34, 4 \<mapsto> 11],
            read_resume := True, file_root := ''run_dyn''\<rparr>])"
proof -
  have ld: "\<And>path. load_polychord_run env_b path 3 = Inr (scripted_samples 6 1)"
    by (simp add: env_b_def scripted_env_def)
  have ss: "logl (scripted_samples 6 1) = map real [0..<6]"
    by (simp add: scripted_samples_def)
  have wr: "\<And>lx ll. rel_posterior_mass env_b lx ll = [0, 0, 1 / 10, 1 / 2, 3 / 10, 1 / 10]"
    by (simp add: env_b_def scripted_env_def)
  have cp: "\<And>a b v. copyfile env_b a b v = Inr v"
    by (simp add: env_b_def scripted_env_def)
  have rp: "\<And>c'. run_polychord env_b c' 3 = Inr (\<lparr>ndead = 30 + nlive c'\<rparr>, 4)"
    by (simp add: env_b_def scripted_env_def)
  have sv: "\<And>c' out rn v. save_info env_b c' out rn v = Inr v"
    by (simp add: env_b_def scripted_env_def)
  have rk: "comm_rank env_b = 0"
    by (simp add: env_b_def scripted_env_def)
  have mx: "max_ndead settings_b = - 1" "file_root settings_b = ''run''"
    by (simp_all add: settings_b_def)
  have nd: "\<And>n. n = 6 \<Longrightarrow>
      nlives_dict [1, 1, 57 / 5, 57, 171 / 5, 57 / 5] (map real [0..<6]) n 1 1
     = Inr [seed_logl \<mapsto> 1, 0 \<mapsto> 1, 1 \<mapsto> 11, 2 \<mapsto> 57, 3 \<mapsto> 34, 4 \<mapsto> 11]"
    using env_b_schedule(3) by simp
  show ?thesis
    unfolding dynamic_phase_def
    by (simp add: ld ss wr cp rp sv rk mx env_b_remove env_b_schedule(1,2,4) nd deepcopy_def
          setattr_def Let_def del: upt_Suc map_upd_Some_unfold remove_resumes.simps)
qed

lemma env_b_run:
  "run_dynamic_polychord env_b [settings_b] 0 0 kwargs_b
     = Some (Inr 4, [settings_b,
          settings_b\<lparr>file_root := ''run_init'', nlive := 1, write_resume := True,
            read_resume := True, max_ndead := 6\<rparr>,
          settings_b\<lparr>nlive := 1,
            nlives := [seed_logl \<mapsto> 1, 0 \<mapsto> 1, 1 \<mapsto> 11, 2 \<mapsto> 57, 3 \<mapsto> 34, 4 \<mapsto> 11],
            read_resume := True, file_root := ''run_dyn''\<rparr>])"
proof -
  define c where "c = settings_b\<lparr>file_root := ''run_init'', nlive := 1, write_resume := True,
     read_resume := False\<rparr>"
  have i: "init_settings [settings_b] 0 1 = (1, [settings_b, c])"
    by (simp add: init_settings_def deepcopy_def setattr_def Let_def c_def settings_b_def)
  have n: "nlive c = 1" by (simp add: c_def)
  have pre: "kw_other kwargs_b = []" "nlives settings_b = Map.empty" "\<not> read_resume settings_b"
    by (simp_all add: kwargs_b_def settings_b_def)
  have kw: "kw_ninit kwargs_b = Some 1" "kw_init_step kwargs_b = Some 2"
    "kw_dyn_nlive_step kwargs_b = None" "kw_nlive_const kwargs_b = Some 20"
    by (simp_all add: kwargs_b_def)
  have lp: "\<And>pc. pc = 1 \<Longrightarrow> exploration_loop env_b 1 2 pc [settings_b, c] 0 []
     = Some (Inr (3, [2, 4, 5]), [settings_b, c\<lparr>read_resume := True, max_ndead := 6\<rparr>])"
    using env_b_loop[OF n] by simp
  have r: "run_dynamic_polychord env_b [settings_b] 0 0 kwargs_b
     = Some (dynamic_phase env_b 1 1 20 0 1
         [settings_b, c\<lparr>read_resume := True, max_ndead := 6\<rparr>] 3 [2, 4, 5])"
    unfolding run_dynamic_polychord_def
    by (simp add: pre kw i lp Let_def)
  show ?thesis
    unfolding r env_b_dynamic_phase by (simp add: c_def)
qed

theorem settings_in_unchanged_witness:
  "run_dynamic_polychord env_b [settings_b] 0 0 kwargs_b
     = Some (Inr 4, [settings_b,
          settings_b\<lparr>file_root := ''run_init'', nlive := 1, write_resume := True,
            read_resume := True, max_ndead := 6\<rparr>,
          settings_b\<lparr>nlive := 1,
            nlives := [seed_logl \<mapsto> 1, 0 \<mapsto> 1, 1 \<mapsto> 11, 2 \<mapsto> 57, 3 \<mapsto> 34, 4 \<mapsto> 11],
            read_resume := True, file_root := ''run_dyn''\<rparr>])
   \<and> (0::nat) < length [settings_b]
   \<and> [settings_b,
          settings_b\<lparr>file_root := ''run_init'', nlive := 1, write_resume := True,
            read_resume := True, max_ndead := 6\<rparr>,
          settings_b\<lparr>nlive := 1,
            nlives := [seed_logl \<mapsto> 1, 0 \<mapsto> 1, 1 \<mapsto> 11, 2 \<mapsto> 57, 3 \<mapsto> 34, 4 \<mapsto> 11],
            read_resume := True, file_root := ''run_dyn''\<rparr>] ! 0 = [settings_b] ! 0"
proof -
  have l: "(0::nat) < length [settings_b]" by simp
  from settings_in_unchanged[OF env_b_run l] env_b_run l show ?thesis by blast
qed

section \<open>Loading and merging the two runs\<close>

text \<open>
  Claim C10. \<^verbatim>\<open>process_dypolychord_run\<close> raises \<^verbatim>\<open>AssertionError\<close> when some thread
  of the loaded init run has a birth bound other than \<open>-infinity\<close>, before the dyn run
  is loaded and before any merging (the store holds the init run exactly as loaded);
  with \<^verbatim>\<open>dynamic_goal == 0\<close> it raises likewise when some thread of the loaded dyn
  run has such a bound, both runs being as loaded. Whenever it returns a run, the init
  run had all birth bounds \<open>-infinity\<close>, and so had the dyn run if the goal was zero.
\<close>

theorem birth_bounds_required:
  "(kw_dynamic_goal kwargs = Some g \<and> kw_unexpected kwargs = [] \<and>
      process_polychord_run env (froot @ ''_init'') bdir
        (case kw_logl_warn_only kwargs of None \<Rightarrow> False | Some b \<Rightarrow> b) = Inr init_run \<and>
      \<not> all_birth_minus_inf init_run
    \<longrightarrow> process_dypolychord_run env st froot bdir kwargs = (Inl AssertionError, st @ [init_run]))
   \<and> (kw_dynamic_goal kwargs = Some (Goal 0) \<and> kw_unexpected kwargs = [] \<and>
      process_polychord_run env (froot @ ''_init'') bdir
        (case kw_logl_warn_only kwargs of None \<Rightarrow> False | Some b \<Rightarrow> b) = Inr init_run \<and>
      all_birth_minus_inf init_run \<and>
      process_polychord_run env (froot @ ''_dyn'') bdir
        (case kw_logl_warn_only kwargs of None \<Rightarrow> False | Some b \<Rightarrow> b) = Inr dyn_run \<and>
      pickle_load env bdir (froot @ ''_dyn_info'') = Inr dyn_info \<and>
      \<not> all_birth_minus_inf dyn_run
    \<longrightarrow> process_dypolychord_run env st froot bdir kwargs
          = (Inl AssertionError, st @ [init_run, dyn_run]))
   \<and> (process_dypolychord_run env st froot bdir kwargs = (Inr merged, st')
    \<longrightarrow> (\<exists>init_run dyn_run.
          process_polychord_run env (froot @ ''_init'') bdir
            (case kw_logl_warn_only kwargs of None \<Rightarrow> False | Some b \<Rightarrow> b) = Inr init_run \<and>
          process_polychord_run env (froot @ ''_dyn'') bdir
            (case kw_logl_warn_only kwargs of None \<Rightarrow> False | Some b \<Rightarrow> b) = Inr dyn_run \<and>
          all_birth_minus_inf init_run \<and>
          (kw_dynamic_goal kwargs = Some (Goal 0) \<longrightarrow> all_birth_minus_inf dyn_run)))"
proof (intro conjI impI)
  assume "kw_dynamic_goal kwargs = Some g \<and> kw_unexpected kwargs = [] \<and>
      process_polychord_run env (froot @ ''_init'') bdir
        (case kw_logl_warn_only kwargs of None \<Rightarrow> False | Some b \<Rightarrow> b) = Inr init_run \<and>
      \<not> all_birth_minus_inf init_run"
  then show "process_dypolychord_run env st froot bdir kwargs = (Inl AssertionError, st @ [init_run])"
    by (simp add: process_dypolychord_run_def Let_def)
next
  assume "kw_dynamic_goal kwargs = Some (Goal 0) \<and> kw_unexpected kwargs = [] \<and>
      process_polychord_run env (froot @ ''_init'') bdir
        (case kw_logl_warn_only kwargs of None \<Rightarrow> False | Some b \<Rightarrow> b) = Inr init_run \<and>
      all_birth_minus_inf init_run \<and>
      process_polychord_run env (froot @ ''_dyn'') bdir
        (case kw_logl_warn_only kwargs of None \<Rightarrow> False | Some b \<Rightarrow> b) = Inr dyn_run \<and>
      pickle_load env bdir (froot @ ''_dyn_info'') = Inr dyn_info \<and>
      \<not> all_birth_minus_inf dyn_run"
  then show "process_dypolychord_run env st froot bdir kwargs
          = (Inl AssertionError, st @ [init_run, dyn_run])"
    by (simp add: process_dypolychord_run_def Let_def nth_append)
next
  assume r: "process_dypolychord_run env st froot bdir kwargs = (Inr merged, st')"
  let ?lw = "case kw_logl_warn_only kwargs of None \<Rightarrow> False | Some b \<Rightarrow> b"
  from r obtain g where g: "kw_dynamic_goal kwargs = Some g"
    by (cases "kw_dynamic_goal kwargs") (auto simp: process_dypolychord_run_def)
  from r g have u: "kw_unexpected kwargs = []"
    by (auto simp: process_dypolychord_run_def Let_def split: if_splits)
  from r g u obtain init_run where i: "process_polychord_run env (froot @ ''_init'') bdir ?lw = Inr init_run"
    by (cases "process_polychord_run env (froot @ ''_init'') bdir ?lw")
       (auto simp: process_dypolychord_run_def Let_def)
  from r g u i have bi: "all_birth_minus_inf init_run"
    by (auto simp: process_dypolychord_run_def Let_def split: if_splits)
  from r g u i bi obtain dyn_run where d: "process_polychord_run env (froot @ ''_dyn'') bdir ?lw = Inr dyn_run"
    by (cases "process_polychord_run env (froot @ ''_dyn'') bdir ?lw")
       (auto simp: process_dypolychord_run_def Let_def)
  from r g u i bi d obtain dyn_info where p: "pickle_load env bdir (froot @ ''_dyn_info'') = Inr dyn_info"
    by (cases "pickle_load env bdir (froot @ ''_dyn_info'')")
       (auto simp: process_dypolychord_run_def Let_def)
  from r g u i bi d p have "g = Goal 0 \<longrightarrow> all_birth_minus_inf dyn_run"
    by (auto simp: process_dypolychord_run_def Let_def nth_append split: if_splits)
  with g i d bi show "\<exists>init_run dyn_run.
          process_polychord_run env (froot @ ''_init'') bdir ?lw = Inr init_run \<and>
          process_polychord_run env (froot @ ''_dyn'') bdir ?lw = Inr dyn_run \<and>
          all_birth_minus_inf init_run \<and>
          (kw_dynamic_goal kwargs = Some (Goal 0) \<longrightarrow> all_birth_minus_inf dyn_run)"
    by auto
qed


theorem birth_bounds_required_witness:
  "process_dypolychord_run
      (env_c (run_c [1, 2, 3] [0, 0, 0] [(Finite 1, Finite 3)])
             (run_c [1, 2, 3] [0, 0, 0] [(MinusInf, Finite 3)]) empty_info)
      [] ''run'' ''chains''
      \<lparr>kw_dynamic_goal = Some (Goal 1), kw_logl_warn_only = None, kw_unexpected = []\<rparr>
     = (Inl AssertionError, [run_c [1, 2, 3] [0, 0, 0] [(Finite 1, Finite 3)]])
   \<and> \<not> all_birth_minus_inf (run_c [1, 2, 3] [0, 0, 0] [(Finite 1, Finite 3)])
   \<and> process_dypolychord_run
      (env_c (run_c [1, 2, 3] [0, 0, 0] [(MinusInf, Finite 3)])
             (run_c [4, 5] [0, 0] [(Finite 1, Finite 5)]) empty_info)
      [] ''run'' ''chains''
      \<lparr>kw_dynamic_goal = Some (Goal 0), kw_logl_warn_only = None, kw_unexpected = []\<rparr>
     = (Inl AssertionError, [run_c [1, 2, 3] [0, 0, 0] [(MinusInf, Finite 3)],
                             run_c [4, 5] [0, 0] [(Finite 1, Finite 5)]])
   \<and> all_birth_minus_inf (run_c [1, 2, 3] [0, 0, 0] [(MinusInf, Finite 3)])
   \<and> \<not> all_birth_minus_inf (run_c [4, 5] [0, 0] [(Finite 1, Finite 5)])"
proof -
  have b1: "\<not> all_birth_minus_inf (run_c [1, 2, 3] [0, 0, 0] [(Finite 1, Finite 3)])"
    by (simp add: all_birth_minus_inf_def run_c_def)
  have b2: "all_birth_minus_inf (run_c [1, 2, 3] [0, 0, 0] [(MinusInf, Finite 3)])"
    by (simp add: all_birth_minus_inf_def run_c_def)
  have b3: "\<not> all_birth_minus_inf (run_c [4, 5] [0, 0] [(Finite 1, Finite 5)])"
    by (simp add: all_birth_minus_inf_def run_c_def)
  have 1: "process_dypolychord_run
      (env_c (run_c [1, 2, 3] [0, 0, 0] [(Finite 1, Finite 3)])
             (run_c [1, 2, 3] [0, 0, 0] [(MinusInf, Finite 3)]) empty_info)
      [] ''run'' ''chains''
      \<lparr>kw_dynamic_goal = Some (Goal 1), kw_logl_warn_only = None, kw_unexpected = []\<rparr>
     = (Inl AssertionError, [] @ [run_c [1, 2, 3] [0, 0, 0] [(Finite 1, Finite 3)]])"
    using birth_bounds_required[where env = "env_c (run_c [1, 2, 3] [0, 0, 0] [(Finite 1, Finite 3)])
             (run_c [1, 2, 3] [0, 0, 0] [(MinusInf, Finite 3)]) empty_info"
        and kwargs = "\<lparr>kw_dynamic_goal = Some (Goal 1), kw_logl_warn_only = None, kw_unexpected = []\<rparr>"
        and g = "Goal 1" and froot = "''run''" and bdir = "''chains''" and st = "[]"
        and init_run = "run_c [1, 2, 3] [0, 0, 0] [(Finite 1, Finite 3)]"] b1
    by (simp add: env_c_def)
  have 2: "process_dypolychord_run
      (env_c (run_c [1, 2, 3] [0, 0, 0] [(MinusInf, Finite 3)])
             (run_c [4, 5] [0, 0] [(Finite 1, Finite 5)]) empty_info)
      [] ''run'' ''chains''
      \<lparr>kw_dynamic_goal = Some (Goal 0), kw_logl_warn_only = None, kw_unexpected = []\<rparr>
     = (Inl AssertionError, [] @ [run_c [1, 2, 3] [0, 0, 0] [(MinusInf, Finite 3)],
                             run_c [4, 5] [0, 0] [(Finite 1, Finite 5)]])"
    using birth_bounds_required[where env = "env_c (run_c [1, 2, 3] [0, 0, 0] [(MinusInf, Finite 3)])
             (run_c [4, 5] [0, 0] [(Finite 1, Finite 5)]) empty_info"
        and kwargs = "\<lparr>kw_dynamic_goal = Some (Goal 0), kw_logl_warn_only = None, kw_unexpected = []\<rparr>"
        and froot = "''run''" and bdir = "''chains''" and st = "[]"
        and init_run = "run_c [1, 2, 3] [0, 0, 0] [(MinusInf, Finite 3)]"
        and dyn_run = "run_c [4, 5] [0, 0] [(Finite 1, Finite 5)]"
        and dyn_info = empty_info] b2 b3
    by (simp add: env_c_def)
  show ?thesis using 1 2 b1 b2 b3 by simp
qed

end
